theory Spec2Isabelle
  imports Main "HOL-Library.Word"
begin

section \<open>JavaScript strings\<close>

text \<open>
  A JavaScript string is a sequence of UTF-16 code units; \<open>length\<close>, \<open>slice\<close>,
  \<open>lastIndexOf\<close> and \<open>trim\<close> all count and compare code units.
\<close>

type_synonym jschar = "16 word"
type_synonym jsstring = "jschar list"

definition ascii :: "string \<Rightarrow> jsstring" where
  "ascii s = map of_char s"

text \<open>
  \<open>String.prototype.trim\<close> strips WhiteSpace and LineTerminator code points:
  TAB, LF, VT, FF, CR, SP, NBSP, U+1680, U+2000..U+200A, U+2028, U+2029, U+202F,
  U+205F, U+3000 and U+FEFF.
\<close>

definition isWhiteSpace :: "jschar \<Rightarrow> bool" where
  "isWhiteSpace c \<longleftrightarrow>
     c = 0x9 \<or> c = 0xA \<or> c = 0xB \<or> c = 0xC \<or> c = 0xD \<or> c = 0x20 \<or> c = 0xA0 \<or>
     c = 0x1680 \<or> (0x2000 \<le> c \<and> c \<le> 0x200A) \<or> c = 0x2028 \<or> c = 0x2029 \<or>
     c = 0x202F \<or> c = 0x205F \<or> c = 0x3000 \<or> c = 0xFEFF"

definition trimStart :: "jsstring \<Rightarrow> jsstring" where
  "trimStart s = dropWhile isWhiteSpace s"

definition trimEnd :: "jsstring \<Rightarrow> jsstring" where
  "trimEnd s = rev (dropWhile isWhiteSpace (rev s))"

definition trim :: "jsstring \<Rightarrow> jsstring" where
  "trim s = trimEnd (trimStart s)"

text \<open>
  \<open>s.slice(start, end)\<close>: a negative index counts from the end, and both indices are
  clamped to \<open>[0, length]\<close>. \<open>s.slice(start)\<close> runs to the end of the string.
  (The names carry a prefix because \<open>slice\<close> is a constant of the word library.)
\<close>

definition js_slice :: "jsstring \<Rightarrow> int \<Rightarrow> int \<Rightarrow> jsstring" where
  "js_slice s start end =
     (let len = int (length s);
          from = (if start < 0 then max (len + start) 0 else min start len);
          to = (if end < 0 then max (len + end) 0 else min end len)
      in take (nat (to - from)) (drop (nat from) s))"

definition js_sliceFrom :: "jsstring \<Rightarrow> int \<Rightarrow> jsstring" where
  "js_sliceFrom s start = js_slice s start (int (length s))"

text \<open>
  \<open>s.lastIndexOf(pat, fromIndex)\<close>: the search starts at
  \<open>min(max(fromIndex, 0), length s - length pat)\<close> and walks down to index 0; the result
  is the first index met where \<open>pat\<close> occurs, or \<open>-1\<close>.
\<close>

definition matchesAt :: "jsstring \<Rightarrow> jsstring \<Rightarrow> nat \<Rightarrow> bool" where
  "matchesAt s pat k \<longleftrightarrow> take (length pat) (drop k s) = pat"

fun lastIndexDown :: "jsstring \<Rightarrow> jsstring \<Rightarrow> nat \<Rightarrow> int" where
  "lastIndexDown s pat 0 = (if matchesAt s pat 0 then 0 else - 1)"
| "lastIndexDown s pat (Suc k) =
     (if matchesAt s pat (Suc k) then int (Suc k) else lastIndexDown s pat k)"

definition lastIndexOf :: "jsstring \<Rightarrow> jsstring \<Rightarrow> int \<Rightarrow> int" where
  "lastIndexOf s pat fromIndex =
     (if length s < length pat then - 1
      else lastIndexDown s pat (min (nat fromIndex) (length s - length pat)))"

section \<open>Reply chunker (format.ts)\<close>

text \<open>
  \<open>chunkFeishuText(text, maxLength)\<close>. The limit is a character budget
  (\<open>textChunkLimit\<close>, 4000 by default) and is modelled as a natural number. For
  integers \<open>i\<close> and \<open>m\<close> the source's test \<open>i > m * 0.5\<close> is \<open>2 * i > m\<close>.
  The \<open>while\<close> loop need not terminate, so it is a partial function: \<open>None\<close>
  means that the loop runs forever.
\<close>

definition chooseBreakPoint :: "jsstring \<Rightarrow> nat \<Rightarrow> int" where
  "chooseBreakPoint remaining maxLength =
     (let paragraphBreak = lastIndexOf remaining (ascii ''\<newline>\<newline>'') (int maxLength) in
      if 2 * paragraphBreak > int maxLength then paragraphBreak
      else
        let newlineBreak = lastIndexOf remaining (ascii ''\<newline>'') (int maxLength) in
        if 2 * newlineBreak > int maxLength then newlineBreak
        else
          let spaceBreak = lastIndexOf remaining (ascii '' '') (int maxLength) in
          if 2 * spaceBreak > int maxLength then spaceBreak else int maxLength)"

partial_function (option) chunkLoop :: "nat \<Rightarrow> jsstring \<Rightarrow> jsstring list \<Rightarrow> jsstring list option" where
  "chunkLoop maxLength remaining chunks =
     (if length remaining > 0 then
        (if length remaining \<le> maxLength then Some (chunks @ [remaining])
         else chunkLoop maxLength
                (trim (js_sliceFrom remaining (chooseBreakPoint remaining maxLength)))
                (chunks @ [trim (js_slice remaining 0 (chooseBreakPoint remaining maxLength))]))
      else Some chunks)"

declare chunkLoop.simps [code]

definition chunkFeishuText :: "jsstring \<Rightarrow> nat \<Rightarrow> jsstring list option" where
  "chunkFeishuText text maxLength =
     (if length text \<le> maxLength then Some [text] else chunkLoop maxLength text [])"

text \<open>
  The break rule in the specification's words, for comparison with \<open>chooseBreakPoint\<close>:
  the candidates are, in this order, the last paragraph break, the last newline and the
  last space at or before index \<open>m\<close>; the first candidate whose index exceeds
  \<open>m * 0.5\<close> is the break point, and \<open>m\<close> itself when none qualifies.
\<close>

definition spec_lastBreak :: "jsstring \<Rightarrow> jsstring \<Rightarrow> nat \<Rightarrow> nat option" where
  "spec_lastBreak s pat m =
     (case filter (matchesAt s pat) (rev [0..<Suc m]) of [] \<Rightarrow> None | i # _ \<Rightarrow> Some i)"

fun spec_firstQualifying :: "nat \<Rightarrow> nat option list \<Rightarrow> nat" where
  "spec_firstQualifying m [] = m"
| "spec_firstQualifying m (None # cands) = spec_firstQualifying m cands"
| "spec_firstQualifying m (Some i # cands) =
     (if 2 * i > m then i else spec_firstQualifying m cands)"

definition spec_breakPoint :: "jsstring \<Rightarrow> nat \<Rightarrow> nat" where
  "spec_breakPoint s m =
     spec_firstQualifying m
       [spec_lastBreak s (ascii ''\<newline>\<newline>'') m,
        spec_lastBreak s (ascii ''\<newline>'') m,
        spec_lastBreak s (ascii '' '') m]"


section \<open>JavaScript values\<close>

text \<open>
  An optional string is truthy when it is present and not empty: \<open>!x\<close>,
  \<open>x || undefined\<close> and \<open>Boolean(x)\<close> all test this.
\<close>

fun truthy :: "jsstring option \<Rightarrow> bool" where
  "truthy None = False"
| "truthy (Some s) = (s \<noteq> [])"

text \<open>\<open>x?.trim() || undefined\<close>\<close>

definition trimmedOrUndefined :: "jsstring option \<Rightarrow> jsstring option" where
  "trimmedOrUndefined x =
     (case x of None \<Rightarrow> None | Some s \<Rightarrow> (if trim s = [] then None else Some (trim s)))"

text \<open>\<open>a ?? b\<close> on optional values.\<close>

fun orElse :: "'a option \<Rightarrow> 'a option \<Rightarrow> 'a option" where
  "orElse (Some a) b = Some a"
| "orElse None b = b"

fun the_default :: "'a \<Rightarrow> 'a option \<Rightarrow> 'a" where
  "the_default d None = d"
| "the_default d (Some a) = a"

definition startsWith :: "jsstring \<Rightarrow> jsstring \<Rightarrow> bool" where
  "startsWith s p \<longleftrightarrow> take (length p) s = p"

text \<open>\<open>xs.join(sep)\<close>\<close>

fun joinWith :: "jsstring \<Rightarrow> jsstring list \<Rightarrow> jsstring" where
  "joinWith sep [] = []"
| "joinWith sep [x] = x"
| "joinWith sep (x # y # ys) = x @ sep @ joinWith sep (y # ys)"

section \<open>Event data (types.ts)\<close>

record FeishuUserId =
  union_id :: "jsstring option"
  user_id :: "jsstring option"
  open_id :: "jsstring option"

record FeishuMention =
  mention_key :: jsstring
  mention_id :: "FeishuUserId option"
  mention_name :: jsstring

record FeishuSender =
  sender_id :: "FeishuUserId option"
  sender_type :: jsstring

text \<open>
  The \<open>content\<close> of a message is a JSON text. It is represented by what the source
  reads from it: the empty string, a text on which \<open>JSON.parse\<close> or the property
  access throws, or an object with the properties \<open>text\<close>, \<open>zh_cn\<close> and
  \<open>en_us\<close>. \<open>JSON.stringify({ text: t })\<close> is the object whose only property is
  \<open>text = t\<close>.
\<close>

record FeishuPostTag =
  tag :: jsstring
  tag_text :: "jsstring option"
  tag_user_name :: "jsstring option"
  tag_user_id :: "jsstring option"

record FeishuPostContent =
  post_title :: "jsstring option"
  post_content :: "FeishuPostTag list list option"

record JsonObject =
  json_text :: "jsstring option"
  json_zh_cn :: "FeishuPostContent option"
  json_en_us :: "FeishuPostContent option"

datatype JsonContent = EmptyContent | InvalidJson | Json JsonObject

definition stringifyText :: "jsstring \<Rightarrow> JsonContent" where
  "stringifyText t = Json \<lparr>json_text = Some t, json_zh_cn = None, json_en_us = None\<rparr>"

record FeishuMessage =
  message_id :: "jsstring option"
  root_id :: "jsstring option"
  parent_id :: "jsstring option"
  create_time :: "jsstring option"
  chat_id :: "jsstring option"
  chat_type :: "jsstring option"
  message_type :: jsstring
  content :: JsonContent
  mentions :: "FeishuMention list option"

record FeishuMessageEvent =
  event_id :: jsstring
  app_id :: jsstring
  sender :: "FeishuSender option"
  message :: "FeishuMessage option"

section \<open>Thread context (threading.ts)\<close>

record FeishuThreadContext =
  rootId :: "jsstring option"
  parentId :: "jsstring option"
  isThreadReply :: bool
  replyToId :: "jsstring option"
  messageThreadId :: "jsstring option"

definition resolveFeishuThreadContext :: "FeishuMessage \<Rightarrow> FeishuThreadContext" where
  "resolveFeishuThreadContext msg =
     (let rootId = trimmedOrUndefined (root_id msg);
          parentId = trimmedOrUndefined (parent_id msg);
          messageId = trimmedOrUndefined (message_id msg)
      in if \<not> truthy rootId then
           \<lparr>rootId = None, parentId = None, isThreadReply = False,
            replyToId = None, messageThreadId = messageId\<rparr>
         else
           \<lparr>rootId = rootId, parentId = parentId, isThreadReply = True,
            replyToId = orElse parentId rootId, messageThreadId = rootId\<rparr>)"

section \<open>Message text (message-handler.ts, prepare.ts)\<close>

text \<open>
  \<open>extractPostText\<close> and \<open>extractMessageText\<close> are defined twice in the source,
  with the same body, in message-handler.ts and in prepare.ts.
\<close>

definition tagLine :: "FeishuPostTag \<Rightarrow> jsstring" where
  "tagLine t =
     (if tag t = ascii ''text'' \<and> truthy (tag_text t) then the_default [] (tag_text t)
      else if tag t = ascii ''a'' \<and> truthy (tag_text t) then the_default [] (tag_text t)
      else if tag t = ascii ''at'' then
        ascii ''@'' @ the_default [] (orElse (tag_user_name t) (orElse (tag_user_id t) (Some [])))
      else [])"

definition extractPostText :: "JsonObject \<Rightarrow> jsstring" where
  "extractPostText parsed =
     (case orElse (json_zh_cn parsed) (json_en_us parsed) of
        None \<Rightarrow> []
      | Some post \<Rightarrow>
          (let titleLines = (if truthy (post_title post) then [the_default [] (post_title post)] else []);
               paragraphLines =
                 (case post_content post of
                    None \<Rightarrow> []
                  | Some paragraphs \<Rightarrow>
                      filter (\<lambda>line. line \<noteq> []) (map (\<lambda>paragraph. concat (map tagLine paragraph)) paragraphs))
           in trim (joinWith (ascii ''\<newline>'') (titleLines @ paragraphLines))))"

definition extractMessageText :: "FeishuMessage \<Rightarrow> jsstring" where
  "extractMessageText msg =
     (case content msg of
        EmptyContent \<Rightarrow> []
      | InvalidJson \<Rightarrow> []
      | Json parsed \<Rightarrow>
          (if message_type msg = ascii ''text'' then the_default [] (json_text parsed)
           else if message_type msg = ascii ''post'' then extractPostText parsed
           else []))"


section \<open>Pipeline records (monitor/message-handler/types.ts)\<close>

record AgentRoute =
  agentId :: jsstring
  routeAccountId :: jsstring
  routeSessionKey :: jsstring
  mainSessionKey :: jsstring

record ThreadSessionKeys =
  threadSessionKey :: jsstring
  parentSessionKey :: "jsstring option"

record HistoryEntry =
  entrySender :: jsstring
  entryBody :: jsstring
  entryTimestamp :: "int option"
  entryMessageId :: "jsstring option"

text \<open>
  The context payload that \<open>prepareFeishuMessage\<close> builds, with the three fields that
  \<open>onFlush\<close> adds to it.
\<close>

record FinalizedMsgContext =
  Body :: jsstring
  RawBody :: jsstring
  CommandBody :: jsstring
  From :: jsstring
  To :: "jsstring option"
  SessionKey :: jsstring
  AccountId :: jsstring
  ChatType :: jsstring
  ConversationLabel :: jsstring
  GroupSubject :: "jsstring option"
  GroupSystemPrompt :: "jsstring option"
  SenderName :: jsstring
  SenderId :: jsstring
  Provider :: jsstring
  Surface :: jsstring
  MessageSid :: "jsstring option"
  ReplyToId :: "jsstring option"
  MessageThreadId :: "jsstring option"
  ParentSessionKey :: "jsstring option"
  Timestamp :: "int option"
  WasMentioned :: "bool option"
  CommandAuthorized :: bool
  OriginatingChannel :: jsstring
  OriginatingTo :: jsstring
  MessageSids :: "jsstring list option"
  MessageSidFirst :: "jsstring option"
  MessageSidLast :: "jsstring option"

section \<open>Collaborators\<close>

text \<open>
  What the message pipeline reads from outside the extension is a parameter of the model:
  the built-ins \<open>String.prototype.toLowerCase\<close> (beyond ASCII) and \<open>Number\<close>, the
  platform lookups behind \<open>ctx.resolveChatInfo\<close> and \<open>ctx.resolveUserName\<close> (their
  caches only save calls), and the functions of the host application whose behaviour the
  specification leaves open: routing, command detection, mention patterns, envelope
  formatting (with the session time stamp it reads), context finalisation, pairing texts
  and codes.
\<close>

record Env =
  toLowerCaseUnicode :: "jsstring \<Rightarrow> jsstring"
  toNumber :: "jsstring \<Rightarrow> int"
  chatInfoName :: "jsstring \<Rightarrow> jsstring option"
  userInfoName :: "jsstring \<Rightarrow> jsstring option"
  resolveAgentRoute :: "jsstring \<Rightarrow> bool \<Rightarrow> jsstring \<Rightarrow> AgentRoute"
  resolveThreadSessionKeys :: "jsstring \<Rightarrow> jsstring option \<Rightarrow> ThreadSessionKeys"
  shouldHandleTextCommands :: bool
  hasControlCommand :: "jsstring \<Rightarrow> bool"
  buildMentionRegexes :: "jsstring \<Rightarrow> jsstring list"
  matchesMentionWithExplicit :: "jsstring \<Rightarrow> jsstring list \<Rightarrow> bool \<Rightarrow> bool \<Rightarrow> bool \<Rightarrow> bool"
  buildPairingReply :: "jsstring \<Rightarrow> jsstring \<Rightarrow> jsstring"
  newPairingCode :: "jsstring \<Rightarrow> jsstring"
  resolveConversationLabel :: "bool \<Rightarrow> jsstring \<Rightarrow> jsstring option \<Rightarrow> jsstring \<Rightarrow> jsstring option"
  formatInboundEnvelope :: "jsstring \<Rightarrow> int option \<Rightarrow> jsstring \<Rightarrow> bool \<Rightarrow> jsstring \<Rightarrow> jsstring"
  finalizeInboundContext :: "FinalizedMsgContext \<Rightarrow> FinalizedMsgContext"

text \<open>
  \<open>s.toLowerCase()\<close>: a string of ASCII code units is lowered unit by unit; any other
  string is left to the parameter.
\<close>

definition asciiLower :: "jschar \<Rightarrow> jschar" where
  "asciiLower c = (if 0x41 \<le> c \<and> c \<le> 0x5A then c + 0x20 else c)"

definition toLowerCase :: "Env \<Rightarrow> jsstring \<Rightarrow> jsstring" where
  "toLowerCase E s =
     (if list_all (\<lambda>c. c < 0x80) s then map asciiLower s else toLowerCaseUnicode E s)"

section \<open>Monitor context (monitor/context.ts)\<close>

datatype FeishuChatType = Direct | Group

definition inferFeishuChatType :: "jsstring option \<Rightarrow> FeishuChatType option" where
  "inferFeishuChatType chatId =
     (case chatId of
        None \<Rightarrow> None
      | Some c \<Rightarrow>
          (let trimmed = trim c
           in if trimmed = [] then None
              else if startsWith trimmed (ascii ''oc_'') then Some Group
              else if startsWith trimmed (ascii ''ou_'') then Some Direct
              else None))"

definition normalizeFeishuChatType :: "Env \<Rightarrow> jsstring option \<Rightarrow> jsstring option \<Rightarrow> FeishuChatType" where
  "normalizeFeishuChatType E chatType chatId =
     (let normalized = map_option (\<lambda>t. toLowerCase E (trim t)) chatType
      in if normalized = Some (ascii ''p2p'') \<or> normalized = Some (ascii ''direct'')
            \<or> normalized = Some (ascii ''im'') then Direct
         else if normalized = Some (ascii ''group'') \<or> normalized = Some (ascii ''chat'') then Group
         else the_default Group (inferFeishuChatType chatId))"

datatype DmPolicy = DmPairing | DmAllowlist | DmOpen | DmDisabled

datatype GroupPolicy = GroupOpen | GroupDisabled | GroupAllowlist

text \<open>
  A group entry of \<open>groupsConfig\<close>. The \<open>users\<close> are kept as the strings that
  \<open>String(entry)\<close> makes of them.
\<close>

record GroupConfig =
  enabled :: "bool option"
  allow :: "bool option"
  requireMention :: "bool option"
  users :: "jsstring list option"
  skills :: "jsstring list option"
  systemPrompt :: "jsstring option"

text \<open>
  The configuration part of \<open>FeishuMonitorContext\<close>. \<open>groupsConfig\<close> is an object
  keyed by chat id, here the list of the entries it has itself (what \<open>Object.keys\<close>
  counts); \<open>chatHistories\<close> and the cache of seen messages are mutable and live in the
  state below.
\<close>

record FeishuMonitorContext =
  accountId :: jsstring
  appId :: jsstring
  botOpenId :: "jsstring option"
  historyLimit :: int
  mainKey :: jsstring
  dmEnabled :: bool
  dmPolicy :: DmPolicy
  allowFrom :: "jsstring list"
  defaultRequireMention :: bool
  groupsConfig :: "(jsstring \<times> GroupConfig) list option"
  groupPolicy :: GroupPolicy
  textLimit :: nat

text \<open>
  \<open>groupsConfig\<close> is a plain object, and \<open>groupsConfig[key]\<close> is a property access: it
  finds the entry that the object itself has under the key and, when it has none, the
  property of that name that every object inherits from \<open>Object.prototype\<close>. The
  inherited values are functions, and \<open>Object.prototype\<close> itself under \<open>__proto__\<close>;
  none of the properties of a group entry is defined on them.
\<close>

definition objectPrototypeKeys :: "jsstring list" where
  "objectPrototypeKeys =
     map ascii
       [''constructor'', ''__defineGetter__'', ''__defineSetter__'', ''hasOwnProperty'',
        ''__lookupGetter__'', ''__lookupSetter__'', ''isPrototypeOf'', ''propertyIsEnumerable'',
        ''toString'', ''valueOf'', ''__proto__'', ''toLocaleString'']"

definition inheritedProperty :: GroupConfig where
  "inheritedProperty =
     \<lparr>enabled = None, allow = None, requireMention = None, users = None, skills = None,
      systemPrompt = None\<rparr>"

definition getProperty :: "(jsstring \<times> GroupConfig) list \<Rightarrow> jsstring \<Rightarrow> GroupConfig option" where
  "getProperty groups key =
     (case map_of groups key of
        Some entry \<Rightarrow> Some entry
      | None \<Rightarrow> (if key \<in> set objectPrototypeKeys then Some inheritedProperty else None))"

text \<open>\<open>groupsConfig?.[chatId] ?? groupsConfig?.["*"]\<close>\<close>

definition lookupGroupConfig :: "FeishuMonitorContext \<Rightarrow> jsstring \<Rightarrow> GroupConfig option" where
  "lookupGroupConfig ctx chatId =
     (case groupsConfig ctx of
        None \<Rightarrow> None
      | Some groups \<Rightarrow> orElse (getProperty groups chatId) (getProperty groups (ascii ''*'')))"

definition isChatAllowed :: "Env \<Rightarrow> FeishuMonitorContext \<Rightarrow> jsstring option \<Rightarrow> jsstring option \<Rightarrow> bool" where
  "isChatAllowed E ctx chatId chatType =
     (let resolved = normalizeFeishuChatType E chatType chatId;
          isDirectMessage = (resolved = Direct);
          isGroup = (resolved = Group)
      in if isDirectMessage \<and> \<not> dmEnabled ctx then False
         else if isGroup \<and> truthy chatId then
           (let hasGroupConfig = (case groupsConfig ctx of None \<Rightarrow> False | Some groups \<Rightarrow> groups \<noteq> [])
            in if groupPolicy ctx = GroupDisabled then False
               else if groupPolicy ctx = GroupAllowlist \<and> hasGroupConfig then
                 (case lookupGroupConfig ctx (the_default [] chatId) of
                    None \<Rightarrow> False
                  | Some chatConfig \<Rightarrow>
                      \<not> (enabled chatConfig = Some False \<or> allow chatConfig = Some False))
               else True)
         else True)"

definition isFeishuUserAllowed :: "Env \<Rightarrow> jsstring list \<Rightarrow> jsstring \<Rightarrow> jsstring option \<Rightarrow> bool" where
  "isFeishuUserAllowed E allowList userId userName =
     (if allowList = [] then False
      else if ascii ''*'' \<in> set allowList then True
      else
        (let lower = map (toLowerCase E) allowList;
             idLower = toLowerCase E userId;
             nameLower = map_option (toLowerCase E) userName
         in idLower \<in> set lower \<or> (case nameLower of None \<Rightarrow> False | Some n \<Rightarrow> n \<in> set lower)))"

record AllowListMatch =
  allowed :: bool
  matchSource :: "jsstring option"

definition resolveFeishuAllowListMatch :: "Env \<Rightarrow> jsstring list \<Rightarrow> jsstring \<Rightarrow> jsstring option \<Rightarrow> AllowListMatch" where
  "resolveFeishuAllowListMatch E allowList ident name =
     (if allowList = [] then \<lparr>allowed = False, matchSource = None\<rparr>
      else if ascii ''*'' \<in> set allowList then \<lparr>allowed = True, matchSource = Some (ascii ''*'')\<rparr>
      else
        (let lower = map (toLowerCase E) allowList;
             idLower = toLowerCase E ident;
             nameLower = map_option (toLowerCase E) name
         in if idLower \<in> set lower then
              \<lparr>allowed = True, matchSource = Some (ascii ''id:'' @ ident)\<rparr>
            else if (case nameLower of None \<Rightarrow> False | Some n \<Rightarrow> n \<in> set lower) then
              \<lparr>allowed = True, matchSource = Some (ascii ''name:'' @ the_default [] name)\<rparr>
            else \<lparr>allowed = False, matchSource = None\<rparr>))"


section \<open>Host functions described by the specification\<close>

text \<open>
  The cache of seen keys: its retention time, its capacity and its entries, each a key
  with its expiry time stamp, listed oldest first.
\<close>

record DedupeCache =
  ttlMs :: int
  maxSize :: nat
  cacheEntries :: "(jsstring \<times> int) list"

text \<open>
  Modelled from the spec: \<open>createDedupeCache\<close> (src/infra/dedupe.js) is not among the
  sources. It makes an empty bounded, time-expiring set of keys with the given retention
  time and capacity.
\<close>

definition createDedupeCache :: "int \<Rightarrow> nat \<Rightarrow> DedupeCache" where
  "createDedupeCache ttl capacity = \<lparr>ttlMs = ttl, maxSize = capacity, cacheEntries = []\<rparr>"

text \<open>
  Modelled from the spec: the \<open>check\<close> of the cache made by \<open>createDedupeCache\<close>
  (src/infra/dedupe.js) is not among the sources. It answers whether the key is already
  held and not expired, inserts the key with its expiry time stamp (\<open>now + ttlMs\<close>),
  and, when the set then exceeds \<open>maxSize\<close>, evicts the expired entries and after them
  the oldest ones.
\<close>

definition dedupeCheck :: "DedupeCache \<Rightarrow> jsstring \<Rightarrow> int \<Rightarrow> bool \<times> DedupeCache" where
  "dedupeCheck cache key now =
     (let seen = (case map_of (cacheEntries cache) key of
                    None \<Rightarrow> False
                  | Some expiry \<Rightarrow> now < expiry);
          inserted = filter (\<lambda>e. fst e \<noteq> key) (cacheEntries cache) @ [(key, now + ttlMs cache)];
          kept = (if maxSize cache < length inserted then
                    (let live = filter (\<lambda>e. now < snd e) inserted
                     in drop (length live - maxSize cache) live)
                  else inserted)
      in (seen, cache\<lparr>cacheEntries := kept\<rparr>))"

text \<open>
  Modelled from the spec: \<open>recordPendingHistoryEntryIfEnabled\<close>
  (src/auto-reply/reply/history.js) is not among the sources. The pending history of a
  conversation is bounded: it holds at most \<open>limit\<close> entries and the oldest are evicted
  first. History is enabled when the limit is positive, and nothing is recorded without
  an entry.
\<close>

definition recordPendingHistoryEntryIfEnabled ::
  "(jsstring \<times> HistoryEntry list) list \<Rightarrow> jsstring \<Rightarrow> int \<Rightarrow> HistoryEntry option
     \<Rightarrow> (jsstring \<times> HistoryEntry list) list" where
  "recordPendingHistoryEntryIfEnabled historyMap historyKey limit entry =
     (case entry of
        None \<Rightarrow> historyMap
      | Some e \<Rightarrow>
          (if limit \<le> 0 then historyMap
           else
             (let history = the_default [] (map_of historyMap historyKey) @ [e];
                  bounded = drop (length history - nat limit) history
              in (historyKey, bounded) # filter (\<lambda>h. fst h \<noteq> historyKey) historyMap)))"

text \<open>
  Modelled from the spec: \<open>buildPendingHistoryContextFromMap\<close>
  (src/auto-reply/reply/history.js) is not among the sources. Up to \<open>limit\<close> pending
  entries of the history key are formatted as a transcript prefix and the current message
  is appended.
\<close>

definition buildPendingHistoryContextFromMap ::
  "(jsstring \<times> HistoryEntry list) list \<Rightarrow> jsstring \<Rightarrow> int \<Rightarrow> jsstring
     \<Rightarrow> (HistoryEntry \<Rightarrow> jsstring) \<Rightarrow> jsstring" where
  "buildPendingHistoryContextFromMap historyMap historyKey limit currentMessage formatEntry =
     (let history = the_default [] (map_of historyMap historyKey);
          recent = drop (length history - nat limit) history
      in joinWith (ascii ''\<newline>'') (map formatEntry recent @ [currentMessage]))"

text \<open>
  Modelled from the spec: \<open>upsertChannelPairingRequest\<close> (src/pairing/pairing-store.js)
  is not among the sources. One pending request is held per channel and external id; the
  upsert creates it the first time, reuses it afterwards, and reports its code and whether
  it was created.
\<close>

definition upsertChannelPairingRequest ::
  "Env \<Rightarrow> ((jsstring \<times> jsstring) \<times> jsstring) list \<Rightarrow> jsstring \<Rightarrow> jsstring
     \<Rightarrow> (jsstring \<times> bool) \<times> ((jsstring \<times> jsstring) \<times> jsstring) list" where
  "upsertChannelPairingRequest E store channel ident =
     (case map_of store (channel, ident) of
        Some code \<Rightarrow> ((code, False), store)
      | None \<Rightarrow>
          (let code = newPairingCode E ident
           in ((code, True), store @ [((channel, ident), code)])))"

text \<open>The sources of authorization handed to the command gate, and its answer.\<close>

record CommandAuthorizer =
  configured :: bool
  authorizerAllowed :: bool

record CommandGate =
  commandAuthorized :: bool
  shouldBlock :: bool

text \<open>
  Modelled from the spec: \<open>resolveControlCommandGate\<close> (src/channels/command-gating.js)
  is not among the sources. A command is authorized when some configured source allows
  the sender, and not authorized when no source is configured; a recognized control
  command that is not authorized is to be blocked when command handling is enabled. The
  specification gives no role to the \<open>useAccessGroups\<close> flag.
\<close>

definition resolveControlCommandGate :: "bool \<Rightarrow> CommandAuthorizer list \<Rightarrow> bool \<Rightarrow> bool \<Rightarrow> CommandGate" where
  "resolveControlCommandGate useAccessGroups authorizers allowTextCommands hasCommand =
     (let authorized = list_ex (\<lambda>a. configured a \<and> authorizerAllowed a) authorizers
      in \<lparr>commandAuthorized = authorized,
          shouldBlock = (allowTextCommands \<and> hasCommand \<and> \<not> authorized)\<rparr>)"

text \<open>The arguments of the mention gate, as prepare.ts passes them, and its answer.\<close>

record MentionGateParams =
  mg_isGroup :: bool
  mg_requireMention :: bool
  mg_canDetectMention :: bool
  mg_wasMentioned :: bool
  mg_implicitMention :: bool
  mg_hasAnyMention :: bool
  mg_allowTextCommands :: bool
  mg_hasControlCommand :: bool
  mg_commandAuthorized :: bool

record MentionGate =
  effectiveWasMentioned :: bool
  shouldSkip :: bool
  shouldBypassMention :: bool

text \<open>
  Modelled from the spec: \<open>resolveMentionGatingWithBypass\<close>
  (src/channels/mention-gating.js) is not among the sources. In a group that requires a
  mention a turn is skipped unless the bot was mentioned; an authorized control command
  bypasses the requirement. The specification gives no role to \<open>canDetectMention\<close> and
  \<open>hasAnyMention\<close>.
\<close>

definition resolveMentionGatingWithBypass :: "MentionGateParams \<Rightarrow> MentionGate" where
  "resolveMentionGatingWithBypass p =
     (let bypass = (mg_isGroup p \<and> mg_requireMention p \<and> \<not> mg_wasMentioned p \<and>
                    mg_allowTextCommands p \<and> mg_hasControlCommand p \<and> mg_commandAuthorized p);
          effective = (mg_wasMentioned p \<or> mg_implicitMention p \<or> bypass)
      in \<lparr>effectiveWasMentioned = effective,
          shouldSkip = (mg_isGroup p \<and> mg_requireMention p \<and> \<not> effective),
          shouldBypassMention = bypass\<rparr>)"

section \<open>Preparing a turn (monitor/message-handler/prepare.ts)\<close>

record HandlerOpts =
  wasMentioned :: "bool option"

record PreparedFeishuMessage =
  p_account :: jsstring
  p_event :: FeishuMessageEvent
  p_route :: AgentRoute
  p_groupConfig :: "GroupConfig option"
  p_replyTarget :: jsstring
  p_ctxPayload :: FinalizedMsgContext
  p_isDirectMessage :: bool
  p_isGroup :: bool
  p_historyKey :: jsstring
  p_preview :: jsstring
  p_threadContext :: FeishuThreadContext

text \<open>
  The state that the pipeline changes: the pending histories of \<open>ctx.chatHistories\<close>,
  the pairing store, the calls of the send collaborator \<open>sendMessageFeishu\<close> (target and
  text; a call that fails is caught and logged by the source), the system events and
  session records handed to the host, and the turns handed to
  \<open>dispatchPreparedFeishuMessage\<close>.
\<close>

record World =
  chatHistories :: "(jsstring \<times> HistoryEntry list) list"
  pairingRequests :: "((jsstring \<times> jsstring) \<times> jsstring) list"
  sentMessages :: "(jsstring \<times> jsstring) list"
  systemEvents :: "(jsstring \<times> jsstring \<times> jsstring) list"
  sessionRecords :: "(jsstring \<times> FinalizedMsgContext) list"
  dispatched :: "PreparedFeishuMessage list"

text \<open>
  Every \<open>return null\<close> of \<open>prepareFeishuMessage\<close> is a value that names the place,
  after the message the source logs there.
\<close>

datatype Drop =
    MissingMessageOrSender
  | MissingChatOrSenderId
  | ChatNotAllowed
  | DmsDisabled
  | DmPairingPending
  | DmUnauthorizedSender
  | NotInGroupUsers
  | EmptyBody
  | UnauthorizedControlCommand
  | NoMention
  | NoReplyTarget

text \<open>Lines 52 to 88: the identifiers, the kind of chat and the chat gate.\<close>

record Identified =
  i_message :: FeishuMessage
  i_sender :: FeishuSender
  i_chatId :: jsstring
  i_senderId :: jsstring
  i_isDirectMessage :: bool
  i_isGroup :: bool
  i_chatName :: "jsstring option"
  i_groupConfig :: "GroupConfig option"

definition chatTypeName :: "FeishuChatType \<Rightarrow> jsstring" where
  "chatTypeName t = (case t of Direct \<Rightarrow> ascii ''direct'' | Group \<Rightarrow> ascii ''group'')"

definition senderOpenId :: "FeishuSender \<Rightarrow> jsstring option" where
  "senderOpenId s = (case sender_id s of None \<Rightarrow> None | Some i \<Rightarrow> open_id i)"

definition senderUserId :: "FeishuSender \<Rightarrow> jsstring option" where
  "senderUserId s = (case sender_id s of None \<Rightarrow> None | Some i \<Rightarrow> user_id i)"

definition identifyTurn :: "Env \<Rightarrow> FeishuMonitorContext \<Rightarrow> FeishuMessageEvent \<Rightarrow> Drop + Identified" where
  "identifyTurn E ctx event =
     (case message event of
        None \<Rightarrow> Inl MissingMessageOrSender
      | Some msg \<Rightarrow>
     (case sender event of
        None \<Rightarrow> Inl MissingMessageOrSender
      | Some sndr \<Rightarrow>
          (if \<not> truthy (chat_id msg) \<or> \<not> truthy (senderOpenId sndr) then Inl MissingChatOrSenderId
           else
             (let chatId = the_default [] (chat_id msg);
                  senderId = the_default [] (senderOpenId sndr);
                  resolvedChatType = normalizeFeishuChatType E (chat_type msg) (Some chatId);
                  isDirectMessage = (resolvedChatType = Direct);
                  isGroup = (resolvedChatType = Group);
                  chatName = (if isGroup then chatInfoName E chatId else None)
              in if \<not> isChatAllowed E ctx (Some chatId) (Some (chatTypeName resolvedChatType))
                 then Inl ChatNotAllowed
                 else Inr \<lparr>i_message = msg, i_sender = sndr, i_chatId = chatId,
                           i_senderId = senderId, i_isDirectMessage = isDirectMessage,
                           i_isGroup = isGroup, i_chatName = chatName,
                           i_groupConfig = (if isGroup then lookupGroupConfig ctx chatId else None)\<rparr>))))"

text \<open>Lines 90 to 138: the authorization of a direct message, with the pairing reply.\<close>

definition checkDmAuthorization ::
  "Env \<Rightarrow> FeishuMonitorContext \<Rightarrow> Identified \<Rightarrow> World \<Rightarrow> Drop option \<times> World" where
  "checkDmAuthorization E ctx i w =
     (if \<not> i_isDirectMessage i then (None, w)
      else if \<not> dmEnabled ctx \<or> dmPolicy ctx = DmDisabled then (Some DmsDisabled, w)
      else if dmPolicy ctx \<noteq> DmOpen then
        (let allowMatch = resolveFeishuAllowListMatch E (allowFrom ctx) (i_senderId i) None
         in if \<not> allowed allowMatch then
              (if dmPolicy ctx = DmPairing then
                 (let upserted = upsertChannelPairingRequest E (pairingRequests w)
                                   (ascii ''feishu'') (i_senderId i);
                      code = fst (fst upserted);
                      created = snd (fst upserted);
                      w1 = w\<lparr>pairingRequests := snd upserted\<rparr>
                  in if created then
                       (Some DmPairingPending,
                        w1\<lparr>sentMessages := sentMessages w1 @
                             [(i_chatId i,
                               buildPairingReply E (ascii ''Your Feishu user id: '' @ i_senderId i) code)]\<rparr>)
                     else (Some DmPairingPending, w1))
               else (Some DmUnauthorizedSender, w))
            else (None, w))
      else (None, w))"

text \<open>
  Lines 140 to 270: route and thread, sender name, the group's user list, the body, the
  mentions, the command gate and the mention gate.
\<close>

record Gated =
  g_route :: AgentRoute
  g_threadContext :: FeishuThreadContext
  g_threadKeys :: ThreadSessionKeys
  g_historyKey :: jsstring
  g_senderName :: jsstring
  g_rawBody :: jsstring
  g_commandGate :: CommandGate
  g_shouldRequireMention :: bool
  g_mentionGate :: MentionGate

definition groupUsers :: "GroupConfig option \<Rightarrow> jsstring list" where
  "groupUsers groupConfig =
     (case groupConfig of None \<Rightarrow> [] | Some g \<Rightarrow> the_default [] (users g))"

definition resolveSenderName :: "Env \<Rightarrow> Identified \<Rightarrow> jsstring" where
  "resolveSenderName E i =
     the_default (i_senderId i)
       (orElse (userInfoName E (i_senderId i)) (senderUserId (i_sender i)))"

definition resolveCommandGate :: "Env \<Rightarrow> FeishuMonitorContext \<Rightarrow> Identified \<Rightarrow> jsstring \<Rightarrow> jsstring \<Rightarrow> CommandGate" where
  "resolveCommandGate E ctx i senderName rawBody =
     (let allowTextCommands = shouldHandleTextCommands E;
          hasControlCommandInMessage = hasControlCommand E rawBody;
          ownerAuthorized =
            allowed (resolveFeishuAllowListMatch E (allowFrom ctx) (i_senderId i) (Some senderName));
          groupUsersAllowlistConfigured = (i_isGroup i \<and> groupUsers (i_groupConfig i) \<noteq> []);
          groupCommandAuthorized =
            (if i_isGroup i \<and> groupUsersAllowlistConfigured
             then isFeishuUserAllowed E (groupUsers (i_groupConfig i)) (i_senderId i) (Some senderName)
             else False)
      in resolveControlCommandGate False
           [\<lparr>configured = (allowFrom ctx \<noteq> []), authorizerAllowed = ownerAuthorized\<rparr>,
            \<lparr>configured = groupUsersAllowlistConfigured, authorizerAllowed = groupCommandAuthorized\<rparr>]
           allowTextCommands hasControlCommandInMessage)"

definition gateTurn ::
  "Env \<Rightarrow> FeishuMonitorContext \<Rightarrow> jsstring \<Rightarrow> Identified \<Rightarrow> HandlerOpts \<Rightarrow> Drop + Gated" where
  "gateTurn E ctx account i opts =
     (let route = resolveAgentRoute E account (i_isDirectMessage i)
                    (if i_isDirectMessage i then i_senderId i else i_chatId i);
          threadContext = resolveFeishuThreadContext (i_message i);
          threadKeys = resolveThreadSessionKeys E (routeSessionKey route)
                         (if isThreadReply threadContext then rootId threadContext else None);
          sessionKey = threadSessionKey threadKeys;
          historyKey = (if isThreadReply threadContext then sessionKey else i_chatId i);
          senderName = resolveSenderName E i;
          groupUserAuthorized =
            (if i_isGroup i
             then isFeishuUserAllowed E (groupUsers (i_groupConfig i)) (i_senderId i) (Some senderName)
                  \<or> \<not> (groupUsers (i_groupConfig i) \<noteq> [])
             else True)
      in if i_isGroup i \<and> \<not> groupUserAuthorized then Inl NotInGroupUsers
         else
           (let rawBody = extractMessageText (i_message i)
            in if trim rawBody = [] then Inl EmptyBody
               else
                 (let mentionRegexes = buildMentionRegexes E (agentId route);
                      mentionList = the_default [] (mentions (i_message i));
                      explicitlyMentioned =
                        (truthy (botOpenId ctx) \<and>
                         list_ex (\<lambda>m. (case mention_id m of None \<Rightarrow> None | Some u \<Rightarrow> open_id u) = botOpenId ctx)
                           mentionList);
                      hasAnyMention = (mentionList \<noteq> []);
                      mentioned =
                        (case wasMentioned opts of
                           Some b \<Rightarrow> b
                         | None \<Rightarrow>
                             \<not> i_isDirectMessage i \<and>
                             matchesMentionWithExplicit E rawBody mentionRegexes hasAnyMention
                               explicitlyMentioned (truthy (botOpenId ctx)));
                      commandGate = resolveCommandGate E ctx i senderName rawBody
                  in if i_isGroup i \<and> shouldBlock commandGate then Inl UnauthorizedControlCommand
                     else
                       (let shouldRequireMention =
                              (if i_isGroup i
                               then the_default (defaultRequireMention ctx)
                                      (case i_groupConfig i of None \<Rightarrow> None | Some g \<Rightarrow> requireMention g)
                               else False);
                            canDetectMention = (truthy (botOpenId ctx) \<or> mentionRegexes \<noteq> []);
                            mentionGate =
                              resolveMentionGatingWithBypass
                                \<lparr>mg_isGroup = i_isGroup i,
                                 mg_requireMention = shouldRequireMention,
                                 mg_canDetectMention = canDetectMention,
                                 mg_wasMentioned = mentioned,
                                 mg_implicitMention = False,
                                 mg_hasAnyMention = hasAnyMention,
                                 mg_allowTextCommands = shouldHandleTextCommands E,
                                 mg_hasControlCommand = hasControlCommand E rawBody,
                                 mg_commandAuthorized = commandAuthorized commandGate\<rparr>
                        in Inr \<lparr>g_route = route, g_threadContext = threadContext,
                                 g_threadKeys = threadKeys, g_historyKey = historyKey,
                                 g_senderName = senderName, g_rawBody = rawBody,
                                 g_commandGate = commandGate,
                                 g_shouldRequireMention = shouldRequireMention,
                                 g_mentionGate = mentionGate\<rparr>))))"


text \<open>
  Lines 272 to 288: the entry that a skipped group turn leaves in the pending history.
\<close>

definition messageTimestamp :: "Env \<Rightarrow> FeishuMessage \<Rightarrow> int option" where
  "messageTimestamp E msg =
     (if truthy (create_time msg) then Some (toNumber E (the_default [] (create_time msg))) else None)"

definition pendingEntry :: "Env \<Rightarrow> Identified \<Rightarrow> Gated \<Rightarrow> HistoryEntry option" where
  "pendingEntry E i g =
     (if g_rawBody g \<noteq> [] then
        Some \<lparr>entrySender = g_senderName g, entryBody = g_rawBody g,
              entryTimestamp = messageTimestamp E (i_message i),
              entryMessageId = message_id (i_message i)\<rparr>
      else None)"

text \<open>
  Lines 290 to 432: the context payload. \<open>rawBody.replace(/\s+/g, " ")\<close> turns every run
  of white space into one space; a missing message id prints as \<open>undefined\<close> in a
  template string.
\<close>

function collapseWhitespace :: "jsstring \<Rightarrow> jsstring" where
  "collapseWhitespace [] = []"
| "collapseWhitespace (c # cs) =
     (if isWhiteSpace c then 0x20 # collapseWhitespace (dropWhile isWhiteSpace cs)
      else c # collapseWhitespace cs)"
  by pat_completeness auto
termination
  by (relation "measure length") (auto simp: le_imp_less_Suc length_dropWhile_le)

definition printed :: "jsstring option \<Rightarrow> jsstring" where
  "printed x = the_default (ascii ''undefined'') x"

definition buildContext ::
  "Env \<Rightarrow> FeishuMonitorContext \<Rightarrow> jsstring \<Rightarrow> FeishuMessageEvent \<Rightarrow> Identified \<Rightarrow> Gated \<Rightarrow> World
     \<Rightarrow> (Drop + PreparedFeishuMessage) \<times> World" where
  "buildContext E ctx account event i g w =
     (let msg = i_message i;
          chatId = i_chatId i;
          senderId = i_senderId i;
          senderName = g_senderName g;
          rawBody = g_rawBody g;
          sessionKey = threadSessionKey (g_threadKeys g);
          roomLabel = (if truthy (i_chatName i) then ascii ''#'' @ the_default [] (i_chatName i)
                       else ascii ''#'' @ chatId);
          preview = take 160 (collapseWhitespace rawBody);
          inboundLabel =
            (if i_isDirectMessage i then ascii ''Feishu DM from '' @ senderName
             else ascii ''Feishu message in '' @ roomLabel @ ascii '' from '' @ senderName);
          feishuFrom = (if i_isDirectMessage i then ascii ''feishu:user:'' @ senderId
                        else ascii ''feishu:chat:'' @ chatId);
          w1 = w\<lparr>systemEvents := systemEvents w @
                 [(inboundLabel @ ascii '': '' @ preview, sessionKey,
                   ascii ''feishu:message:'' @ chatId @ ascii '':'' @ printed (message_id msg))]\<rparr>;
          envelopeFrom =
            the_default (if i_isDirectMessage i then senderName else roomLabel)
              (resolveConversationLabel E (i_isDirectMessage i) senderName
                 (if i_isGroup i then Some roomLabel else None) feishuFrom);
          textWithId = rawBody @ ascii ''\<newline>[feishu message id: '' @ printed (message_id msg)
                         @ ascii '' chat: '' @ chatId @ ascii '']'';
          body = formatInboundEnvelope E envelopeFrom (messageTimestamp E msg) textWithId
                   (i_isDirectMessage i) senderName;
          combinedBody =
            (if i_isGroup i \<and> historyLimit ctx > 0 then
               buildPendingHistoryContextFromMap (chatHistories w1) (g_historyKey g)
                 (historyLimit ctx) body
                 (\<lambda>entry. formatInboundEnvelope E roomLabel (entryTimestamp entry)
                    (entryBody entry @
                     (if truthy (entryMessageId entry)
                      then ascii '' [id:'' @ the_default [] (entryMessageId entry)
                             @ ascii '' chat:'' @ chatId @ ascii '']''
                      else []))
                    False (entrySender entry))
             else body);
          feishuTo = (if i_isDirectMessage i then ascii ''user:'' @ senderId
                      else ascii ''chat:'' @ chatId);
          groupSystemPrompt =
            (if i_isGroup i
             then (case i_groupConfig i of
                     None \<Rightarrow> None
                   | Some gc \<Rightarrow> map_option trim (systemPrompt gc))
             else None);
          ctxPayload = finalizeInboundContext E
            \<lparr>Body = combinedBody, RawBody = rawBody, CommandBody = rawBody,
             From = feishuFrom, To = Some feishuTo, SessionKey = sessionKey,
             AccountId = routeAccountId (g_route g),
             ChatType = (if i_isDirectMessage i then ascii ''direct'' else ascii ''channel''),
             ConversationLabel = envelopeFrom,
             GroupSubject = (if i_isGroup i then Some roomLabel else None),
             GroupSystemPrompt = groupSystemPrompt,
             SenderName = senderName, SenderId = senderId,
             Provider = ascii ''feishu'', Surface = ascii ''feishu'',
             MessageSid = message_id msg,
             ReplyToId = replyToId (g_threadContext g),
             MessageThreadId = rootId (g_threadContext g),
             ParentSessionKey = parentSessionKey (g_threadKeys g),
             Timestamp = messageTimestamp E msg,
             WasMentioned = (if i_isGroup i then Some (effectiveWasMentioned (g_mentionGate g)) else None),
             CommandAuthorized = commandAuthorized (g_commandGate g),
             OriginatingChannel = ascii ''feishu'', OriginatingTo = feishuTo,
             MessageSids = None, MessageSidFirst = None, MessageSidLast = None\<rparr>;
          w2 = w1\<lparr>sessionRecords := sessionRecords w1 @ [(sessionKey, ctxPayload)]\<rparr>
      in if \<not> truthy (To ctxPayload) then (Inl NoReplyTarget, w2)
         else
           (Inr \<lparr>p_account = account, p_event = event, p_route = g_route g,
                  p_groupConfig = i_groupConfig i,
                  p_replyTarget = the_default [] (To ctxPayload),
                  p_ctxPayload = ctxPayload,
                  p_isDirectMessage = i_isDirectMessage i, p_isGroup = i_isGroup i,
                  p_historyKey = g_historyKey g, p_preview = preview,
                  p_threadContext = g_threadContext g\<rparr>,
            w2))"

definition prepareFeishuMessage ::
  "Env \<Rightarrow> FeishuMonitorContext \<Rightarrow> jsstring \<Rightarrow> FeishuMessageEvent \<Rightarrow> HandlerOpts \<Rightarrow> World
     \<Rightarrow> (Drop + PreparedFeishuMessage) \<times> World" where
  "prepareFeishuMessage E ctx account event opts w =
     (case identifyTurn E ctx event of
        Inl d \<Rightarrow> (Inl d, w)
      | Inr i \<Rightarrow>
          (case checkDmAuthorization E ctx i w of
             (Some d, w1) \<Rightarrow> (Inl d, w1)
           | (None, w1) \<Rightarrow>
               (case gateTurn E ctx account i opts of
                  Inl d \<Rightarrow> (Inl d, w1)
                | Inr g \<Rightarrow>
                    (if i_isGroup i \<and> g_shouldRequireMention g \<and> shouldSkip (g_mentionGate g) then
                       (Inl NoMention,
                        w1\<lparr>chatHistories :=
                             recordPendingHistoryEntryIfEnabled (chatHistories w1) (g_historyKey g)
                               (historyLimit ctx) (pendingEntry E i g)\<rparr>)
                     else buildContext E ctx account event i g w1))))"

section \<open>Message handler (monitor/message-handler.ts)\<close>

type_synonym DebounceEntry = "FeishuMessageEvent \<times> HandlerOpts"

definition extractEventText :: "FeishuMessageEvent \<Rightarrow> jsstring" where
  "extractEventText event =
     (case message event of None \<Rightarrow> [] | Some msg \<Rightarrow> extractMessageText msg)"

definition shouldDebounce :: "Env \<Rightarrow> DebounceEntry \<Rightarrow> bool" where
  "shouldDebounce E entry =
     (let t = extractEventText (fst entry)
      in if trim t = [] then False else \<not> hasControlCommand E t)"

text \<open>
  \<open>onFlush\<close>, lines 41 to 96. The synthetic event is the last event with the content of
  its message replaced; spreading a missing message leaves an object with the new content
  only.
\<close>

definition emptyMessage :: FeishuMessage where
  "emptyMessage =
     \<lparr>message_id = None, root_id = None, parent_id = None, create_time = None,
      chat_id = None, chat_type = None, message_type = [], content = EmptyContent,
      mentions = None\<rparr>"

definition combineText :: "DebounceEntry list \<Rightarrow> jsstring" where
  "combineText entries =
     (if length entries = 1 then extractEventText (fst (last entries))
      else joinWith (ascii ''\<newline>'')
             (filter (\<lambda>t. t \<noteq> []) (map (\<lambda>entry. extractEventText (fst entry)) entries)))"

definition syntheticEvent :: "DebounceEntry list \<Rightarrow> FeishuMessageEvent" where
  "syntheticEvent entries =
     (let lastEvent = fst (last entries)
      in lastEvent\<lparr>message :=
           Some ((the_default emptyMessage (message lastEvent))
                   \<lparr>content := stringifyText (combineText entries)\<rparr>)\<rparr>)"

definition combinedOpts :: "DebounceEntry list \<Rightarrow> HandlerOpts" where
  "combinedOpts entries =
     (let combinedMentioned = list_ex (\<lambda>entry. wasMentioned (snd entry) = Some True) entries
      in \<lparr>wasMentioned = (if combinedMentioned then Some True else wasMentioned (snd (last entries)))\<rparr>)"

definition recordMessageIds :: "DebounceEntry list \<Rightarrow> PreparedFeishuMessage \<Rightarrow> PreparedFeishuMessage" where
  "recordMessageIds entries prepared =
     (if length entries > 1 then
        (let ids = map (the_default [])
                     (filter truthy
                        (map (\<lambda>entry. case message (fst entry) of
                                         None \<Rightarrow> None
                                       | Some msg \<Rightarrow> message_id msg) entries))
         in if ids \<noteq> [] then
              prepared\<lparr>p_ctxPayload :=
                (p_ctxPayload prepared)\<lparr>MessageSids := Some ids,
                   MessageSidFirst := Some (hd ids), MessageSidLast := Some (last ids)\<rparr>\<rparr>
            else prepared)
      else prepared)"

text \<open>
  \<open>dispatchPreparedFeishuMessage\<close> hands the turn to the reply pipeline of the host.
\<close>

definition dispatchPreparedFeishuMessage :: "PreparedFeishuMessage \<Rightarrow> World \<Rightarrow> World" where
  "dispatchPreparedFeishuMessage prepared w = w\<lparr>dispatched := dispatched w @ [prepared]\<rparr>"

definition onFlush ::
  "Env \<Rightarrow> FeishuMonitorContext \<Rightarrow> jsstring \<Rightarrow> DebounceEntry list \<Rightarrow> World \<Rightarrow> World" where
  "onFlush E ctx account entries w =
     (if entries = [] then w
      else
        (case prepareFeishuMessage E ctx account (syntheticEvent entries) (combinedOpts entries) w of
           (Inl d, w1) \<Rightarrow> w1
         | (Inr prepared, w1) \<Rightarrow>
             dispatchPreparedFeishuMessage (recordMessageIds entries prepared) w1))"

text \<open>
  The handler itself, lines 98 to 110, with \<open>markMessageSeen\<close> of the monitor context
  (context.ts, lines 129 to 137). \<open>now\<close> is the clock reading of the call; the debouncer
  is the host's, and the state keeps what was handed to its \<open>enqueue\<close>.
\<close>

record HandlerState =
  seenMessages :: DedupeCache
  enqueued :: "DebounceEntry list"

definition initialHandlerState :: HandlerState where
  "initialHandlerState = \<lparr>seenMessages = createDedupeCache 60000 500, enqueued = []\<rparr>"

definition markMessageSeen ::
  "DedupeCache \<Rightarrow> jsstring option \<Rightarrow> jsstring option \<Rightarrow> int \<Rightarrow> bool \<times> DedupeCache" where
  "markMessageSeen cache chatId messageId now =
     (if \<not> truthy chatId \<or> \<not> truthy messageId then (False, cache)
      else dedupeCheck cache
             (the_default [] chatId @ ascii '':'' @ the_default [] messageId) now)"

definition feishuMessageHandler ::
  "int \<Rightarrow> FeishuMessageEvent \<Rightarrow> HandlerOpts \<Rightarrow> HandlerState \<Rightarrow> HandlerState" where
  "feishuMessageHandler now event opts st =
     (case message event of
        None \<Rightarrow> st
      | Some msg \<Rightarrow>
          (let marked = markMessageSeen (seenMessages st) (chat_id msg) (message_id msg) now
           in if fst marked then st\<lparr>seenMessages := snd marked\<rparr>
              else st\<lparr>seenMessages := snd marked, enqueued := enqueued st @ [(event, opts)]\<rparr>))"

text \<open>Deliveries in sequence, each with its clock reading.\<close>

fun deliverAll :: "(int \<times> FeishuMessageEvent \<times> HandlerOpts) list \<Rightarrow> HandlerState \<Rightarrow> HandlerState" where
  "deliverAll [] st = st"
| "deliverAll ((now, event, opts) # rest) st = deliverAll rest (feishuMessageHandler now event opts st)"

section \<open>Notions used to state the properties\<close>

text \<open>The code units of a string that are not white space, in their order.\<close>

definition nonWhiteSpace :: "jsstring \<Rightarrow> jsstring" where
  "nonWhiteSpace s = filter (\<lambda>c. \<not> isWhiteSpace c) s"

text \<open>An optional id is non-blank when it is present and has a code unit other than white space.\<close>

definition nonBlank :: "jsstring option \<Rightarrow> bool" where
  "nonBlank x = (case x of None \<Rightarrow> False | Some s \<Rightarrow> trim s \<noteq> [])"

definition notDisabled :: "GroupConfig \<Rightarrow> bool" where
  "notDisabled c \<longleftrightarrow> enabled c \<noteq> Some False \<and> allow c \<noteq> Some False"

text \<open>An instance of the collaborators, on which the model is run in the examples.\<close>

definition exampleEnv :: Env where
  "exampleEnv =
     \<lparr>toLowerCaseUnicode = (\<lambda>s. s),
      toNumber = (\<lambda>s. int (length s)),
      chatInfoName = (\<lambda>chat. None),
      userInfoName = (\<lambda>user. None),
      resolveAgentRoute = (\<lambda>account direct peer.
         \<lparr>agentId = ascii ''main'', routeAccountId = account,
          routeSessionKey = ascii ''agent:main:'' @ peer,
          mainSessionKey = ascii ''agent:main:main''\<rparr>),
      resolveThreadSessionKeys = (\<lambda>base thread.
         (case thread of
            None \<Rightarrow> \<lparr>threadSessionKey = base, parentSessionKey = None\<rparr>
          | Some t \<Rightarrow> \<lparr>threadSessionKey = base @ ascii '':thread:'' @ t, parentSessionKey = Some base\<rparr>)),
      shouldHandleTextCommands = True,
      hasControlCommand = (\<lambda>t. startsWith t (ascii ''/'')),
      buildMentionRegexes = (\<lambda>agent. []),
      matchesMentionWithExplicit = (\<lambda>t regexes hasAny explicit canResolve. explicit),
      buildPairingReply = (\<lambda>idLine code. idLine @ ascii '' / pairing code: '' @ code),
      newPairingCode = (\<lambda>ident. ascii ''CODE-'' @ ident),
      resolveConversationLabel = (\<lambda>direct senderName subject origin. None),
      formatInboundEnvelope = (\<lambda>origin stamp body direct senderName. body),
      finalizeInboundContext = (\<lambda>payload. payload)\<rparr>"

definition exampleContext :: FeishuMonitorContext where
  "exampleContext =
     \<lparr>accountId = ascii ''default'', appId = ascii ''cli_app'', botOpenId = Some (ascii ''ou_bot''),
      historyLimit = 10, mainKey = ascii ''main'', dmEnabled = True, dmPolicy = DmPairing,
      allowFrom = [], defaultRequireMention = True, groupsConfig = None,
      groupPolicy = GroupAllowlist, textLimit = 4000\<rparr>"

text \<open>A reply whose ids carry surrounding white space.\<close>

definition paddedReply :: FeishuMessage where
  "paddedReply =
     \<lparr>message_id = Some (ascii ''m2''), root_id = Some (ascii '' r ''), parent_id = Some (ascii '' p ''),
      create_time = Some (ascii ''1700000000000''), chat_id = Some (ascii ''oc_1''),
      chat_type = Some (ascii ''group''), message_type = ascii ''text'',
      content = stringifyText (ascii ''hello''), mentions = None\<rparr>"

definition threadReply :: FeishuMessage where
  "threadReply = paddedReply\<lparr>root_id := Some (ascii ''r''), parent_id := Some (ascii ''p'')\<rparr>"

definition allowlistContext :: FeishuMonitorContext where
  "allowlistContext =
     exampleContext\<lparr>groupsConfig :=
       Some [(ascii ''oc_1'',
              \<lparr>enabled = Some True, allow = None, requireMention = None, users = None,
               skills = None, systemPrompt = None\<rparr>),
             (ascii ''oc_2'',
              \<lparr>enabled = Some False, allow = None, requireMention = None, users = None,
               skills = None, systemPrompt = None\<rparr>)]\<rparr>"

definition emptyWorld :: World where
  "emptyWorld =
     \<lparr>chatHistories = [], pairingRequests = [], sentMessages = [], systemEvents = [],
      sessionRecords = [], dispatched = []\<rparr>"

definition exampleSender :: FeishuSender where
  "exampleSender =
     \<lparr>sender_id = Some \<lparr>union_id = None, user_id = None, open_id = Some (ascii ''ou_user'')\<rparr>,
      sender_type = ascii ''user''\<rparr>"

text \<open>A direct message and a group message of the same sender.\<close>

definition dmEvent :: FeishuMessageEvent where
  "dmEvent =
     \<lparr>event_id = ascii ''ev1'', app_id = ascii ''cli_app'', sender = Some exampleSender,
      message = Some \<lparr>message_id = Some (ascii ''om_1''), root_id = None, parent_id = None,
        create_time = Some (ascii ''1700000000000''), chat_id = Some (ascii ''oc_dm''),
        chat_type = Some (ascii ''p2p''), message_type = ascii ''text'',
        content = stringifyText (ascii ''hello''), mentions = None\<rparr>\<rparr>"

definition groupEvent :: FeishuMessageEvent where
  "groupEvent =
     \<lparr>event_id = ascii ''ev2'', app_id = ascii ''cli_app'', sender = Some exampleSender,
      message = Some \<lparr>message_id = Some (ascii ''om_2''), root_id = None, parent_id = None,
        create_time = Some (ascii ''1700000000000''), chat_id = Some (ascii ''oc_1''),
        chat_type = Some (ascii ''group''), message_type = ascii ''text'',
        content = stringifyText (ascii ''hello''), mentions = None\<rparr>\<rparr>"

definition notMentioned :: HandlerOpts where
  "notMentioned = \<lparr>wasMentioned = Some False\<rparr>"

text \<open>
  Matching a sender against an allowlist in the specification's words: some entry is the
  wildcard, or equals the sender's id or display name up to letter case.
\<close>

definition spec_matchesAllowList :: "Env \<Rightarrow> jsstring list \<Rightarrow> jsstring \<Rightarrow> jsstring \<Rightarrow> bool" where
  "spec_matchesAllowList E allowList ident name \<longleftrightarrow>
     (\<exists>entry\<in>set allowList.
        entry = ascii ''*'' \<or> toLowerCase E entry = toLowerCase E ident
        \<or> toLowerCase E entry = toLowerCase E name)"

definition openGroupContext :: FeishuMonitorContext where
  "openGroupContext = exampleContext\<lparr>groupPolicy := GroupOpen\<rparr>"

definition noHistoryContext :: FeishuMonitorContext where
  "noHistoryContext = openGroupContext\<lparr>historyLimit := 0\<rparr>"

definition commandEvent :: FeishuMessageEvent where
  "commandEvent =
     groupEvent\<lparr>message :=
       map_option (\<lambda>m. m\<lparr>content := stringifyText (ascii ''/reset'')\<rparr>) (message groupEvent)\<rparr>"

text \<open>The message ids of the members of a bucket, in arrival order.\<close>

definition memberIds :: "DebounceEntry list \<Rightarrow> jsstring list" where
  "memberIds entries =
     concat (map (\<lambda>entry. case message (fst entry) of
                              None \<Rightarrow> []
                            | Some msg \<Rightarrow>
                                (case message_id msg of
                                   None \<Rightarrow> []
                                 | Some mid \<Rightarrow> (if mid = [] then [] else [mid]))) entries)"

definition secondGroupEvent :: FeishuMessageEvent where
  "secondGroupEvent =
     groupEvent\<lparr>event_id := ascii ''ev3'',
       message := map_option
         (\<lambda>m. m\<lparr>message_id := Some (ascii ''om_3''), content := stringifyText (ascii ''world'')\<rparr>)
         (message groupEvent)\<rparr>"

definition mentioned :: HandlerOpts where
  "mentioned = \<lparr>wasMentioned = Some True\<rparr>"

text \<open>
  A burst of deliveries in the chat of \<open>groupEvent\<close>, one per millisecond, each with a
  message id of its own.
\<close>

definition burstEvent :: "nat \<Rightarrow> FeishuMessageEvent" where
  "burstEvent j =
     groupEvent\<lparr>message :=
       map_option (\<lambda>m. m\<lparr>message_id := Some (ascii ''om_'' @ replicate j 0x78)\<rparr>) (message groupEvent)\<rparr>"

fun burst :: "nat \<Rightarrow> (int \<times> FeishuMessageEvent \<times> HandlerOpts) list" where
  "burst 0 = []"
| "burst (Suc n) = burst n @ [(int (Suc n), burstEvent (Suc n), notMentioned)]"

text \<open>
  The key is held by the cache, does not expire before \<open>bound\<close>, and at most \<open>n\<close>
  entries are younger than it.
\<close>

definition holds :: "jsstring \<Rightarrow> int \<Rightarrow> nat \<Rightarrow> DedupeCache \<Rightarrow> bool" where
  "holds k bound n c \<longleftrightarrow>
     (\<exists>pre x post. cacheEntries c = pre @ (k, x) # post \<and> k \<notin> fst ` set pre \<and>
        k \<notin> fst ` set post \<and> bound \<le> x \<and> length post \<le> n)"

definition burstKey :: "nat \<Rightarrow> jsstring" where
  "burstKey j = ascii ''oc_1:om_'' @ replicate j 0x78"

definition burstEntries :: "nat \<Rightarrow> (jsstring \<times> int) list" where
  "burstEntries n = map (\<lambda>j. (burstKey j, int j + 60000)) [1..<Suc n]"

definition afterFirst :: HandlerState where
  "afterFirst = feishuMessageHandler 0 groupEvent notMentioned initialHandlerState"

text \<open>An event whose message carries no message id.\<close>

definition unidentifiedEvent :: FeishuMessageEvent where
  "unidentifiedEvent =
     groupEvent\<lparr>message := map_option (\<lambda>m. m\<lparr>message_id := None\<rparr>) (message groupEvent)\<rparr>"

text \<open>
  The chunks lie in the text one after the other, in their order, and everything of the
  text outside them is white space.
\<close>

fun spacedOut :: "jsstring list \<Rightarrow> jsstring \<Rightarrow> bool" where
  "spacedOut [] t = list_all isWhiteSpace t"
| "spacedOut (c # cs) t =
     (\<exists>n\<in>set [0..<Suc (length t)].
        list_all isWhiteSpace (take n t) \<and> take (length c) (drop n t) = c \<and>
        spacedOut cs (drop (n + length c) t))"

text \<open>
  A rich-text message of the same sender in the same group: a post whose only paragraph
  is the text \<open>world\<close>.
\<close>

definition postEvent :: FeishuMessageEvent where
  "postEvent =
     groupEvent\<lparr>event_id := ascii ''ev4'',
       message := map_option
         (\<lambda>m. m\<lparr>message_id := Some (ascii ''om_4''), message_type := ascii ''post'',
                content := Json \<lparr>json_text = None,
                  json_zh_cn = Some \<lparr>post_title = None,
                    post_content = Some [[\<lparr>tag = ascii ''text'', tag_text = Some (ascii ''world''),
                                            tag_user_name = None, tag_user_id = None\<rparr>]]\<rparr>,
                  json_en_us = None\<rparr>\<rparr>)
         (message groupEvent)\<rparr>"

section \<open>Properties of the JavaScript string operations\<close>

lemma nonWhiteSpace_dropWhile:
  "nonWhiteSpace (dropWhile isWhiteSpace s) = nonWhiteSpace s"
  unfolding nonWhiteSpace_def by (induction s) auto

lemma nonWhiteSpace_trim: "nonWhiteSpace (trim s) = nonWhiteSpace s"
proof -
  have "nonWhiteSpace (trimEnd x) = nonWhiteSpace x" for x
    using nonWhiteSpace_dropWhile [of "rev x"]
    unfolding trimEnd_def nonWhiteSpace_def
    by (metis rev_filter rev_rev_ident)
  then show ?thesis
    by (simp add: trim_def trimStart_def nonWhiteSpace_dropWhile)
qed

lemma nonWhiteSpace_append: "nonWhiteSpace (a @ b) = nonWhiteSpace a @ nonWhiteSpace b"
  by (simp add: nonWhiteSpace_def)

lemma length_trim_le: "length (trim s) \<le> length s"
proof -
  have "length (dropWhile isWhiteSpace x) \<le> length x" for x :: jsstring
    by (rule length_dropWhile_le)
  then show ?thesis
    unfolding trim_def trimStart_def trimEnd_def
    by (metis length_rev order_trans)
qed

lemma trim_empty_iff: "trim s = [] \<longleftrightarrow> nonWhiteSpace s = []"
proof
  assume "trim s = []"
  then have "nonWhiteSpace (trim s) = []" by (simp add: nonWhiteSpace_def)
  then show "nonWhiteSpace s = []" by (simp add: nonWhiteSpace_trim)
next
  assume "nonWhiteSpace s = []"
  then have "\<forall>c\<in>set s. isWhiteSpace c" by (simp add: nonWhiteSpace_def filter_empty_conv)
  then have d: "dropWhile isWhiteSpace s = []" by simp
  show "trim s = []" unfolding trim_def trimStart_def trimEnd_def d by simp
qed

lemma js_slice_prefix: "0 \<le> b \<Longrightarrow> js_slice s 0 b = take (nat b) s"
  by (auto simp: js_slice_def Let_def min_def)

lemma js_sliceFrom_suffix: "0 \<le> b \<Longrightarrow> js_sliceFrom s b = drop (nat b) s"
  by (auto simp: js_sliceFrom_def js_slice_def Let_def min_def)

lemma js_slice_split: "js_slice s 0 b @ js_sliceFrom s b = s"
proof (cases "0 \<le> b")
  case True
  then show ?thesis by (simp add: js_slice_prefix js_sliceFrom_suffix)
next
  case False
  then have neg: "b < 0" by simp
  define k where "k = nat (max (int (length s) + b) 0)"
  have "js_slice s 0 b = take k s"
    using neg by (simp add: js_slice_def Let_def k_def)
  moreover have "js_sliceFrom s b = drop k s"
    using neg by (auto simp: js_sliceFrom_def js_slice_def Let_def k_def max_def)
  ultimately show ?thesis by simp
qed

lemma lastIndexDown_upper: "lastIndexDown s pat k \<le> int k"
  by (induction k) auto

lemma lastIndexDown_lower: "- 1 \<le> lastIndexDown s pat k"
  by (induction k) auto

lemma lastIndexOf_upper: "lastIndexOf s pat (int m) \<le> int m"
  using lastIndexDown_upper [of s pat "min m (length s - length pat)"]
  by (auto simp: lastIndexOf_def min_def split: if_splits)

lemma matchesAt_bound:
  assumes "matchesAt s pat k" "pat \<noteq> []"
  shows "k + length pat \<le> length s"
proof -
  from assms(1) have "length (take (length pat) (drop k s)) = length pat"
    by (simp add: matchesAt_def)
  then have "min (length pat) (length s - k) = length pat" by simp
  moreover from assms(2) have "0 < length pat" by simp
  ultimately show ?thesis by linarith
qed

section \<open>Properties of the chunker\<close>

lemma chooseBreakPoint_upper: "chooseBreakPoint r m \<le> int m"
  using lastIndexOf_upper [of r _ m]
  by (simp add: chooseBreakPoint_def Let_def)

lemma chooseBreakPoint_pos: "1 \<le> m \<Longrightarrow> 1 \<le> chooseBreakPoint r m"
  by (auto simp: chooseBreakPoint_def Let_def)

lemma chooseBreakPoint_nonneg: "0 \<le> chooseBreakPoint r m"
  by (auto simp: chooseBreakPoint_def Let_def)

lemma chooseBreakPoint_zero: "chooseBreakPoint r 0 = 0"
  using chooseBreakPoint_upper [of r 0] chooseBreakPoint_nonneg [of r 0] by simp

lemma remainder_shrinks:
  assumes "1 \<le> m" "r \<noteq> []"
  shows "length (trim (js_sliceFrom r (chooseBreakPoint r m))) < length r"
proof -
  define bp where "bp = chooseBreakPoint r m"
  have bp1: "1 \<le> bp" using assms(1) chooseBreakPoint_pos by (simp add: bp_def)
  have "length (trim (js_sliceFrom r bp)) \<le> length (drop (nat bp) r)"
    using bp1 length_trim_le [of "drop (nat bp) r"] by (simp add: js_sliceFrom_suffix)
  also have "\<dots> < length r"
    using bp1 assms(2) by simp
  finally show ?thesis by (simp add: bp_def)
qed

lemma chunk_fits: "length (trim (js_slice r 0 (chooseBreakPoint r m))) \<le> m"
proof -
  define bp where "bp = chooseBreakPoint r m"
  have bounds: "0 \<le> bp" "bp \<le> int m"
    using chooseBreakPoint_nonneg chooseBreakPoint_upper by (simp_all add: bp_def)
  have "length (trim (js_slice r 0 bp)) \<le> length (take (nat bp) r)"
    using bounds(1) length_trim_le [of "take (nat bp) r"] by (simp add: js_slice_prefix)
  also have "\<dots> \<le> nat bp" by simp
  also have "\<dots> \<le> m" using bounds by linarith
  finally show ?thesis by (simp add: bp_def)
qed

lemma chunkLoop_total:
  assumes m: "1 \<le> m"
  shows "\<exists>res. chunkLoop m r cs = Some res \<and>
           ((\<forall>c\<in>set cs. length c \<le> m) \<longrightarrow> (\<forall>c\<in>set res. length c \<le> m))"
proof (induction "length r" arbitrary: r cs rule: less_induct)
  case less
  show ?case
  proof (cases "r = []")
    case True
    then show ?thesis by (subst chunkLoop.simps) simp
  next
    case nonempty: False
    show ?thesis
    proof (cases "length r \<le> m")
      case True
      with nonempty show ?thesis by (subst chunkLoop.simps) simp
    next
      case False
      define r' where "r' = trim (js_sliceFrom r (chooseBreakPoint r m))"
      define c' where "c' = trim (js_slice r 0 (chooseBreakPoint r m))"
      have shorter: "length r' < length r"
        using remainder_shrinks [OF m nonempty] by (simp add: r'_def)
      have fits: "length c' \<le> m"
        using chunk_fits by (simp add: c'_def)
      from less [OF shorter, of "cs @ [c']"] obtain res where
        res: "chunkLoop m r' (cs @ [c']) = Some res"
          "(\<forall>c\<in>set (cs @ [c']). length c \<le> m) \<longrightarrow> (\<forall>c\<in>set res. length c \<le> m)"
        by blast
      have "chunkLoop m r cs = chunkLoop m r' (cs @ [c'])"
        using nonempty False by (subst chunkLoop.simps) (simp add: r'_def c'_def)
      with res fits show ?thesis by auto
    qed
  qed
qed

lemma chunkLoop_content:
  "chunkLoop m r cs = Some res \<Longrightarrow>
     nonWhiteSpace (concat res) = nonWhiteSpace (concat cs) @ nonWhiteSpace r"
proof (induction rule: chunkLoop.raw_induct [rotated 1, consumes 1])
  case (1 loop m r cs res)
  show ?case
  proof (cases "0 < length r \<and> \<not> length r \<le> m")
    case True
    define bp where "bp = chooseBreakPoint r m"
    from True 1(2) have
      "loop m (trim (js_sliceFrom r bp)) (cs @ [trim (js_slice r 0 bp)]) = Some res"
      by (simp add: bp_def)
    from 1(1) [OF this] have
      "nonWhiteSpace (concat res) =
         nonWhiteSpace (concat cs) @ nonWhiteSpace (js_slice r 0 bp) @ nonWhiteSpace (js_sliceFrom r bp)"
      by (simp add: nonWhiteSpace_trim nonWhiteSpace_append)
    also have "nonWhiteSpace (js_slice r 0 bp) @ nonWhiteSpace (js_sliceFrom r bp) = nonWhiteSpace r"
      using js_slice_split [of r bp] by (metis nonWhiteSpace_append)
    finally show ?thesis .
  next
    case False
    with 1(2) show ?thesis by (auto simp: nonWhiteSpace_append nonWhiteSpace_def split: if_splits)
  qed
qed

lemma chunkLoop_zero_content:
  "chunkLoop m r cs = Some res \<Longrightarrow> m = 0 \<Longrightarrow> nonWhiteSpace r = []"
proof (induction rule: chunkLoop.raw_induct [rotated 1, consumes 1])
  case (1 loop m r cs res)
  show ?case
  proof (cases "r = []")
    case True
    then show ?thesis by (simp add: nonWhiteSpace_def)
  next
    case False
    with 1(2,3) have "loop m (trim (js_sliceFrom r 0)) (cs @ [trim (js_slice r 0 0)]) = Some res"
      by (simp add: chooseBreakPoint_zero)
    from 1(1) [OF this 1(3)] have "nonWhiteSpace (js_sliceFrom r 0) = []"
      by (simp add: nonWhiteSpace_trim)
    then show ?thesis by (simp add: js_sliceFrom_suffix)
  qed
qed

lemma spec_lastBreak_0:
  "spec_lastBreak s pat 0 = (if matchesAt s pat 0 then Some 0 else None)"
  by (simp add: spec_lastBreak_def)

lemma spec_lastBreak_Suc:
  "spec_lastBreak s pat (Suc m) =
     (if matchesAt s pat (Suc m) then Some (Suc m) else spec_lastBreak s pat m)"
  by (simp add: spec_lastBreak_def)

lemma lastIndexDown_spec:
  "lastIndexDown s pat m = (case spec_lastBreak s pat m of None \<Rightarrow> - 1 | Some i \<Rightarrow> int i)"
  by (induction m) (simp_all add: spec_lastBreak_0 spec_lastBreak_Suc)

lemma lastIndexDown_clamp:
  assumes "pat \<noteq> []" "length pat \<le> length s"
  shows "lastIndexDown s pat (min m (length s - length pat)) = lastIndexDown s pat m"
proof (induction m)
  case 0
  then show ?case by simp
next
  case (Suc m)
  show ?case
  proof (cases "Suc m \<le> length s - length pat")
    case True
    then show ?thesis by (simp add: min_def)
  next
    case False
    then have "\<not> matchesAt s pat (Suc m)"
      using matchesAt_bound [OF _ assms(1), of s "Suc m"] by auto
    moreover from False have "min (Suc m) (length s - length pat) = min m (length s - length pat)"
      by simp
    ultimately show ?thesis using Suc by simp
  qed
qed

lemma lastIndexDown_short:
  assumes "pat \<noteq> []" "length s < length pat"
  shows "lastIndexDown s pat m = - 1"
proof -
  have "\<not> matchesAt s pat k" for k
    using matchesAt_bound [OF _ assms(1), of s k] assms(2) by auto
  then show ?thesis by (induction m) simp_all
qed

lemma lastIndexOf_spec:
  assumes "pat \<noteq> []"
  shows "lastIndexOf s pat (int m) =
           (case spec_lastBreak s pat m of None \<Rightarrow> - 1 | Some i \<Rightarrow> int i)"
proof (cases "length s < length pat")
  case True
  then show ?thesis
    using lastIndexDown_short [OF assms True, of m]
    by (simp add: lastIndexOf_def lastIndexDown_spec)
next
  case False
  then show ?thesis
    using lastIndexDown_clamp [OF assms, of s m]
    by (simp add: lastIndexOf_def lastIndexDown_spec)
qed

lemma chooseBreakPoint_spec: "chooseBreakPoint r m = int (spec_breakPoint r m)"
proof -
  have ne: "ascii ''\<newline>\<newline>'' \<noteq> []" "ascii ''\<newline>'' \<noteq> []" "ascii '' '' \<noteq> []"
    by (simp_all add: ascii_def)
  show ?thesis
    unfolding chooseBreakPoint_def spec_breakPoint_def Let_def
      lastIndexOf_spec [OF ne(1)] lastIndexOf_spec [OF ne(2)] lastIndexOf_spec [OF ne(3)]
    by (auto split: option.splits)
qed

lemma chunkLoop_step:
  assumes "m < length r"
  shows "chunkLoop m r cs =
           chunkLoop m (trim (drop (spec_breakPoint r m) r)) (cs @ [trim (take (spec_breakPoint r m) r)])"
proof -
  have "js_sliceFrom r (chooseBreakPoint r m) = drop (spec_breakPoint r m) r"
    by (simp add: chooseBreakPoint_spec js_sliceFrom_suffix)
  moreover have "js_slice r 0 (chooseBreakPoint r m) = take (spec_breakPoint r m) r"
    by (simp add: chooseBreakPoint_spec js_slice_prefix)
  ultimately show ?thesis
    using assms by (subst chunkLoop.simps) auto
qed

text \<open>
  Claim C2. A text that fits the limit is returned as the single chunk. A longer text
  enters the loop, and every round of the loop on a remainder longer than the limit breaks
  it at the point the specification names: the first of the last paragraph break, the
  last newline and the last space at or before \<open>m\<close> whose index exceeds \<open>m * 0.5\<close>, or
  \<open>m\<close> itself. The chunk emitted is the trimmed prefix up to the break point and the new
  remainder is the trimmed suffix. A remainder that fits is emitted as the last chunk,
  and an empty remainder ends the loop.
\<close>

theorem chunkFeishuText_break_rule:
  "(length t \<le> m \<longrightarrow> chunkFeishuText t m = Some [t]) \<and>
   (m < length t \<longrightarrow> chunkFeishuText t m = chunkLoop m t []) \<and>
   (m < length r \<longrightarrow>
      chunkLoop m r cs =
        chunkLoop m (trim (drop (spec_breakPoint r m) r))
          (cs @ [trim (take (spec_breakPoint r m) r)])) \<and>
   (r \<noteq> [] \<and> length r \<le> m \<longrightarrow> chunkLoop m r cs = Some (cs @ [r])) \<and>
   chunkLoop m [] cs = Some cs"
proof -
  have "r \<noteq> [] \<and> length r \<le> m \<longrightarrow> chunkLoop m r cs = Some (cs @ [r])"
    by (subst chunkLoop.simps) simp
  moreover have "chunkLoop m [] cs = Some cs"
    by (subst chunkLoop.simps) simp
  ultimately show ?thesis
    using chunkLoop_step [of m r cs] by (simp add: chunkFeishuText_def)
qed

theorem chunkFeishuText_break_rule_witness:
  "12 < length (ascii ''Word1 Word2 Word3 Word4'') \<and>
   chunkFeishuText (ascii ''Word1 Word2 Word3 Word4'') 12 =
     chunkLoop 12 (ascii ''Word3 Word4'') [ascii ''Word1 Word2''] \<and>
   chunkLoop 12 (ascii ''Word3 Word4'') [ascii ''Word1 Word2''] =
     Some [ascii ''Word1 Word2'', ascii ''Word3 Word4'']"
proof -
  have bp: "spec_breakPoint (ascii ''Word1 Word2 Word3 Word4'') 12 = 11"
    by code_simp
  have t1: "trim (take 11 (ascii ''Word1 Word2 Word3 Word4'')) = ascii ''Word1 Word2''"
    by code_simp
  have t2: "trim (drop 11 (ascii ''Word1 Word2 Word3 Word4'')) = ascii ''Word3 Word4''"
    by code_simp
  have len: "12 < length (ascii ''Word1 Word2 Word3 Word4'')"
    by (simp add: ascii_def)
  have len2: "ascii ''Word3 Word4'' \<noteq> [] \<and> length (ascii ''Word3 Word4'') \<le> 12"
    by (simp add: ascii_def)
  from chunkFeishuText_break_rule
         [of "ascii ''Word1 Word2 Word3 Word4''" 12 "ascii ''Word1 Word2 Word3 Word4''" "[]"]
       chunkFeishuText_break_rule
         [of "ascii ''Word1 Word2 Word3 Word4''" 12 "ascii ''Word3 Word4''" "[ascii ''Word1 Word2'']"]
       len len2
  show ?thesis by (simp add: bp t1 t2)
qed

lemma spacedOut_Cons:
  "spacedOut (c # cs) t \<longleftrightarrow>
     (\<exists>a b. t = a @ c @ b \<and> list_all isWhiteSpace a \<and> spacedOut cs b)"
proof
  assume "spacedOut (c # cs) t"
  then have "\<exists>n\<in>set [0..<Suc (length t)].
        list_all isWhiteSpace (take n t) \<and> take (length c) (drop n t) = c \<and>
        spacedOut cs (drop (n + length c) t)"
    by (simp only: spacedOut.simps)
  then obtain n where n: "n \<in> set [0..<Suc (length t)]" "list_all isWhiteSpace (take n t)"
    "take (length c) (drop n t) = c" "spacedOut cs (drop (n + length c) t)"
    by blast
  have "take (length c) (drop n t) @ drop (length c) (drop n t) = drop n t"
    by (rule append_take_drop_id)
  then have "t = take n t @ take (length c) (drop n t) @ drop (length c) (drop n t)"
    by (simp only: append_take_drop_id)
  then have "t = take n t @ c @ drop (n + length c) t"
    using n(3) by (simp add: add.commute)
  with n(2,4) show "\<exists>a b. t = a @ c @ b \<and> list_all isWhiteSpace a \<and> spacedOut cs b"
    by blast
next
  assume "\<exists>a b. t = a @ c @ b \<and> list_all isWhiteSpace a \<and> spacedOut cs b"
  then obtain a b where ab: "t = a @ c @ b" "list_all isWhiteSpace a" "spacedOut cs b"
    by blast
  have "length a \<in> set [0..<Suc (length t)]"
    by (simp add: ab(1))
  moreover have "list_all isWhiteSpace (take (length a) t)"
    "take (length c) (drop (length a) t) = c"
    "spacedOut cs (drop (length a + length c) t)"
    using ab by simp_all
  ultimately show "spacedOut (c # cs) t"
    unfolding spacedOut.simps by blast
qed

lemma spacedOut_lead:
  "list_all isWhiteSpace w \<Longrightarrow> spacedOut cs t \<Longrightarrow> spacedOut cs (w @ t)"
proof (cases cs)
  case Nil
  then show "list_all isWhiteSpace w \<Longrightarrow> spacedOut cs t \<Longrightarrow> spacedOut cs (w @ t)"
    by simp
next
  case (Cons c rest)
  assume w: "list_all isWhiteSpace w" and s: "spacedOut cs t"
  from s [unfolded Cons spacedOut_Cons]
  obtain a b where ab: "t = a @ c @ b" "list_all isWhiteSpace a" "spacedOut rest b"
    by blast
  have "w @ t = (w @ a) @ c @ b" "list_all isWhiteSpace (w @ a)"
    using ab w by simp_all
  with ab(3) show "spacedOut cs (w @ t)"
    unfolding Cons spacedOut_Cons by blast
qed

lemma trim_decomposition:
  "\<exists>a b. s = a @ trim s @ b \<and> list_all isWhiteSpace a \<and> list_all isWhiteSpace b"
proof -
  define a where "a = takeWhile isWhiteSpace s"
  define u where "u = dropWhile isWhiteSpace s"
  define b where "b = rev (takeWhile isWhiteSpace (rev u))"
  have s: "s = a @ u" by (simp add: a_def u_def)
  have "u = rev (dropWhile isWhiteSpace (rev u)) @ rev (takeWhile isWhiteSpace (rev u))"
    by (metis rev_append rev_rev_ident takeWhile_dropWhile_id)
  then have u: "u = trim s @ b"
    by (simp add: trim_def trimStart_def trimEnd_def u_def b_def)
  have "list_all isWhiteSpace a"
    unfolding a_def list_all_iff using set_takeWhileD by fastforce
  moreover have "list_all isWhiteSpace b"
    unfolding b_def list_all_iff using set_takeWhileD by fastforce
  ultimately show ?thesis using s u by auto
qed

lemma chunkLoop_spaced:
  "chunkLoop m r cs = Some res \<Longrightarrow>
     \<exists>rest. res = cs @ rest \<and> (\<forall>s. list_all isWhiteSpace s \<longrightarrow> spacedOut rest (r @ s))"
proof (induction rule: chunkLoop.raw_induct [rotated 1, consumes 1])
  case (1 loop m r cs res)
  show ?case
  proof (cases "0 < length r \<and> \<not> length r \<le> m")
    case True
    define bp where "bp = chooseBreakPoint r m"
    define c where "c = trim (js_slice r 0 bp)"
    define r' where "r' = trim (js_sliceFrom r bp)"
    from True 1(2) have "loop m r' (cs @ [c]) = Some res"
      by (simp add: bp_def c_def r'_def)
    from 1(1) [OF this] obtain rest where
      rest: "res = (cs @ [c]) @ rest" "\<forall>s. list_all isWhiteSpace s \<longrightarrow> spacedOut rest (r' @ s)"
      by blast
    from trim_decomposition [of "js_slice r 0 bp"] obtain a1 a2 where
      a: "js_slice r 0 bp = a1 @ c @ a2" "list_all isWhiteSpace a1" "list_all isWhiteSpace a2"
      unfolding c_def by blast
    from trim_decomposition [of "js_sliceFrom r bp"] obtain b1 b2 where
      b: "js_sliceFrom r bp = b1 @ r' @ b2" "list_all isWhiteSpace b1" "list_all isWhiteSpace b2"
      unfolding r'_def by blast
    have r: "r = a1 @ c @ a2 @ b1 @ r' @ b2"
      using js_slice_split [of r bp] a(1) b(1) by simp
    have "spacedOut (c # rest) (r @ s)" if s: "list_all isWhiteSpace s" for s
    proof -
      have "list_all isWhiteSpace (b2 @ s)" using b(3) s by simp
      with rest(2) have "spacedOut rest (r' @ b2 @ s)" by blast
      from spacedOut_lead [OF _ this, of "a2 @ b1"] a(3) b(2)
      have "spacedOut rest (a2 @ b1 @ r' @ b2 @ s)" by simp
      moreover have "r @ s = a1 @ c @ (a2 @ b1 @ r' @ b2 @ s)" using r by simp
      ultimately show ?thesis
        unfolding spacedOut_Cons using a(2) by blast
    qed
    with rest(1) show ?thesis by auto
  next
    case False
    show ?thesis
    proof (cases "r = []")
      case True
      with 1(2) show ?thesis by auto
    next
      case nonempty: False
      with False 1(2) have res: "res = cs @ [r]" by auto
      have "spacedOut [r] (r @ s)" if "list_all isWhiteSpace s" for s
        unfolding spacedOut_Cons using that by (intro exI [of _ "[]"] exI [of _ s]) simp
      with res show ?thesis by blast
    qed
  qed
qed

lemma chunkFeishuText_spaced:
  assumes "chunkFeishuText t m = Some cs"
  shows "spacedOut cs t"
proof (cases "length t \<le> m")
  case True
  with assms have "cs = [t]" by (simp add: chunkFeishuText_def)
  moreover have "spacedOut [t] t"
    unfolding spacedOut_Cons by (intro exI [of _ "[]"]) simp
  ultimately show ?thesis by simp
next
  case False
  with assms have "chunkLoop m t [] = Some cs" by (simp add: chunkFeishuText_def)
  from chunkLoop_spaced [OF this] obtain rest where
    rest: "cs = [] @ rest" "\<forall>s. list_all isWhiteSpace s \<longrightarrow> spacedOut rest (t @ s)"
    by blast
  from rest(2) have "spacedOut rest (t @ [])" by (simp del: append_Nil2)
  with rest(1) show ?thesis by simp
qed

text \<open>
  Claim C3. Whatever \<open>chunkFeishuText\<close> returns, the chunks lie in the text one after
  the other, in their order, and everything of the text outside them is white space; so
  the code units of the chunks that are not white space are, in order, exactly those of
  the text: trimming at the chunk boundaries drops white space only, and nothing is
  duplicated. For a limit of at least one the function does return.
\<close>

theorem chunkFeishuText_lossless:
  "(1 \<le> m \<longrightarrow> (\<exists>chunks. chunkFeishuText t m = Some chunks)) \<and>
   (chunkFeishuText t m = Some cs \<longrightarrow>
      nonWhiteSpace (concat cs) = nonWhiteSpace t \<and> spacedOut cs t)"
proof -
  have "chunkFeishuText t m = Some cs \<longrightarrow> nonWhiteSpace (concat cs) = nonWhiteSpace t"
    using chunkLoop_content [of m t "[]" cs]
    by (auto simp: chunkFeishuText_def nonWhiteSpace_def split: if_splits)
  moreover have "chunkFeishuText t m = Some cs \<longrightarrow> spacedOut cs t"
    using chunkFeishuText_spaced [of t m cs] by blast
  moreover have "1 \<le> m \<longrightarrow> (\<exists>chunks. chunkFeishuText t m = Some chunks)"
    using chunkLoop_total [of m t "[]"] by (auto simp: chunkFeishuText_def)
  ultimately show ?thesis by blast
qed

theorem chunkFeishuText_lossless_witness:
  "chunkFeishuText (ascii ''ab  cd ef'') 5 = Some [ascii ''ab'', ascii ''cd ef''] \<and>
   nonWhiteSpace (concat [ascii ''ab'', ascii ''cd ef'']) = nonWhiteSpace (ascii ''ab  cd ef'') \<and>
   spacedOut [ascii ''ab'', ascii ''cd ef''] (ascii ''ab  cd ef'')"
proof -
  have "chunkFeishuText (ascii ''ab  cd ef'') 5 = Some [ascii ''ab'', ascii ''cd ef'']"
    by code_simp
  with chunkFeishuText_lossless [of 5 "ascii ''ab  cd ef''" "[ascii ''ab'', ascii ''cd ef'']"]
  show ?thesis by blast
qed

text \<open>
  Claim C10. For a limit of at least one the loop terminates: the break point is at least
  one, so every round leaves a strictly shorter remainder; and every chunk returned has
  at most \<open>m\<close> code units. The limit must be positive: with the limit 0 the function
  never returns on a text that has a code unit other than white space.
\<close>

theorem chunkFeishuText_terminates:
  "(1 \<le> m \<longrightarrow>
      (\<exists>chunks. chunkFeishuText t m = Some chunks \<and> (\<forall>c\<in>set chunks. length c \<le> m))) \<and>
   (1 \<le> m \<and> r \<noteq> [] \<longrightarrow>
      1 \<le> chooseBreakPoint r m \<and>
      length (trim (js_sliceFrom r (chooseBreakPoint r m))) < length r) \<and>
   (trim t \<noteq> [] \<longrightarrow> chunkFeishuText t 0 = None)"
proof -
  have "1 \<le> m \<longrightarrow>
      (\<exists>chunks. chunkFeishuText t m = Some chunks \<and> (\<forall>c\<in>set chunks. length c \<le> m))"
    using chunkLoop_total [of m t "[]"] by (auto simp: chunkFeishuText_def)
  moreover have "1 \<le> m \<and> r \<noteq> [] \<longrightarrow>
      1 \<le> chooseBreakPoint r m \<and>
      length (trim (js_sliceFrom r (chooseBreakPoint r m))) < length r"
    using chooseBreakPoint_pos [of m r] remainder_shrinks [of m r] by simp
  moreover have "trim t \<noteq> [] \<longrightarrow> chunkFeishuText t 0 = None"
  proof
    assume ne: "trim t \<noteq> []"
    then have "t \<noteq> []" by (auto simp: trim_def trimStart_def trimEnd_def)
    have "chunkLoop 0 t [] = None"
    proof (cases "chunkLoop 0 t []")
      case None
      then show ?thesis .
    next
      case (Some res)
      from chunkLoop_zero_content [OF Some] ne show ?thesis
        by (simp add: trim_empty_iff)
    qed
    with \<open>t \<noteq> []\<close> show "chunkFeishuText t 0 = None"
      by (simp add: chunkFeishuText_def)
  qed
  ultimately show ?thesis by blast
qed

theorem chunkFeishuText_terminates_witness:
  "(1::nat) \<le> 4 \<and>
   chunkFeishuText (ascii ''abcdefghij'') 4 = Some [ascii ''abcd'', ascii ''efgh'', ascii ''ij''] \<and>
   length (ascii ''abcd'') \<le> 4 \<and> length (ascii ''efgh'') \<le> 4 \<and> length (ascii ''ij'') \<le> 4 \<and>
   1 \<le> chooseBreakPoint (ascii ''abcdefghij'') 4 \<and>
   trim (ascii ''abcdefghij'') \<noteq> [] \<and>
   chunkFeishuText (ascii ''abcdefghij'') 0 = None"
proof -
  have run: "chunkFeishuText (ascii ''abcdefghij'') 4 = Some [ascii ''abcd'', ascii ''efgh'', ascii ''ij'']"
    by code_simp
  have tr: "trim (ascii ''abcdefghij'') = ascii ''abcdefghij''"
    by code_simp
  have ne: "ascii ''abcdefghij'' \<noteq> []"
    by (simp add: ascii_def)
  from chunkFeishuText_terminates [of 4 "ascii ''abcdefghij''" "ascii ''abcdefghij''"]
       chunkFeishuText_terminates [of 0 "ascii ''abcdefghij''" "[]"]
       run tr ne
  show ?thesis by (simp add: ascii_def)
qed

section \<open>Properties of the thread context\<close>

lemma truthy_trimmedOrUndefined: "truthy (trimmedOrUndefined x) = nonBlank x"
  by (cases x) (simp_all add: trimmedOrUndefined_def nonBlank_def)

lemma trimmedOrUndefined_nonBlank:
  "trimmedOrUndefined x = (if nonBlank x then map_option trim x else None)"
  by (cases x) (simp_all add: trimmedOrUndefined_def nonBlank_def)

text \<open>
  Claim C4, with every id read after trimming. \<open>isThreadReply\<close> holds exactly when
  the message has a non-blank \<open>root_id\<close>. Without one, \<open>replyToId\<close> is undefined
  and the thread id is the trimmed id of the message itself (undefined when that id is
  blank). With one, \<open>replyToId\<close> is the trimmed \<open>parent_id\<close> when it is non-blank and
  the trimmed \<open>root_id\<close> otherwise, and the thread id is the trimmed \<open>root_id\<close>.
\<close>

theorem thread_context_trimmed:
  "(isThreadReply (resolveFeishuThreadContext msg) \<longleftrightarrow> nonBlank (root_id msg)) \<and>
   (\<not> nonBlank (root_id msg) \<longrightarrow>
      replyToId (resolveFeishuThreadContext msg) = None \<and>
      messageThreadId (resolveFeishuThreadContext msg) =
        (if nonBlank (message_id msg) then map_option trim (message_id msg) else None)) \<and>
   (nonBlank (root_id msg) \<longrightarrow>
      replyToId (resolveFeishuThreadContext msg) =
        (if nonBlank (parent_id msg) then map_option trim (parent_id msg)
         else map_option trim (root_id msg)) \<and>
      messageThreadId (resolveFeishuThreadContext msg) = map_option trim (root_id msg))"
  by (cases "root_id msg"; cases "parent_id msg"; cases "message_id msg")
     (simp_all add: resolveFeishuThreadContext_def Let_def trimmedOrUndefined_def nonBlank_def)

theorem thread_context_trimmed_witness:
  "nonBlank (root_id threadReply) \<and>
   isThreadReply (resolveFeishuThreadContext threadReply) \<and>
   replyToId (resolveFeishuThreadContext threadReply) = Some (ascii ''p'') \<and>
   messageThreadId (resolveFeishuThreadContext threadReply) = Some (ascii ''r'')"
proof -
  have nb: "nonBlank (root_id threadReply)" "nonBlank (parent_id threadReply)"
    by code_simp+
  have tr: "map_option trim (root_id threadReply) = Some (ascii ''r'')"
    "map_option trim (parent_id threadReply) = Some (ascii ''p'')"
    by code_simp+
  from thread_context_trimmed [of threadReply] nb tr show ?thesis by simp
qed

theorem thread_context_raw_ids_counterexample:
  "nonBlank (root_id paddedReply) \<and> nonBlank (parent_id paddedReply) \<and>
   root_id paddedReply = Some (ascii '' r '') \<and>
   messageThreadId (resolveFeishuThreadContext paddedReply) = Some (ascii ''r'') \<and>
   messageThreadId (resolveFeishuThreadContext paddedReply) \<noteq> root_id paddedReply \<and>
   replyToId (resolveFeishuThreadContext paddedReply) \<noteq> parent_id paddedReply"
  by code_simp

section \<open>Properties of the chat gate\<close>

lemma wildcard_not_inherited: "ascii ''*'' \<notin> set objectPrototypeKeys"
  by code_simp

text \<open>
  Claim C6, for a group conversation with a chat id. Under the policy \<open>disabled\<close> the
  group is dropped and under \<open>open\<close> it is allowed, whatever the group entries say.
  Under \<open>allowlist\<close>, when no group entry is configured at all, every group is allowed;
  when group entries are configured, a group whose chat id is not the name of a property
  that every object inherits is allowed exactly when its own entry, or the wildcard entry
  when it has none, exists and is not explicitly disabled.
\<close>

theorem isChatAllowed_group_policy:
  assumes "normalizeFeishuChatType E chatType (Some chatId) = Group" and "chatId \<noteq> []"
  shows "(groupPolicy ctx = GroupDisabled \<longrightarrow> \<not> isChatAllowed E ctx (Some chatId) chatType) \<and>
         (groupPolicy ctx = GroupOpen \<longrightarrow> isChatAllowed E ctx (Some chatId) chatType) \<and>
         (groupPolicy ctx = GroupAllowlist \<and> (groupsConfig ctx = None \<or> groupsConfig ctx = Some []) \<longrightarrow>
            isChatAllowed E ctx (Some chatId) chatType) \<and>
         (groupPolicy ctx = GroupAllowlist \<and> groupsConfig ctx = Some groups \<and> groups \<noteq> [] \<and>
          chatId \<notin> set objectPrototypeKeys \<longrightarrow>
            isChatAllowed E ctx (Some chatId) chatType =
              (case map_of groups chatId of
                 Some c \<Rightarrow> notDisabled c
               | None \<Rightarrow>
                   (case map_of groups (ascii ''*'') of
                      Some c \<Rightarrow> notDisabled c
                    | None \<Rightarrow> False)))"
  using assms wildcard_not_inherited
  by (auto simp: isChatAllowed_def Let_def lookupGroupConfig_def getProperty_def notDisabled_def
           split: option.splits)

theorem isChatAllowed_group_policy_witness:
  "normalizeFeishuChatType exampleEnv (Some (ascii ''group'')) (Some (ascii ''oc_1'')) = Group \<and>
   normalizeFeishuChatType exampleEnv (Some (ascii ''group'')) (Some (ascii ''oc_2'')) = Group \<and>
   ascii ''oc_1'' \<notin> set objectPrototypeKeys \<and> ascii ''oc_2'' \<notin> set objectPrototypeKeys \<and>
   groupPolicy allowlistContext = GroupAllowlist \<and>
   isChatAllowed exampleEnv allowlistContext (Some (ascii ''oc_1'')) (Some (ascii ''group'')) \<and>
   \<not> isChatAllowed exampleEnv allowlistContext (Some (ascii ''oc_2'')) (Some (ascii ''group''))"
proof -
  have g: "normalizeFeishuChatType exampleEnv (Some (ascii ''group'')) (Some (ascii ''oc_1'')) = Group"
    "normalizeFeishuChatType exampleEnv (Some (ascii ''group'')) (Some (ascii ''oc_2'')) = Group"
    by code_simp+
  have ne: "ascii ''oc_1'' \<noteq> []" "ascii ''oc_2'' \<noteq> []"
    by (simp_all add: ascii_def)
  have own: "ascii ''oc_1'' \<notin> set objectPrototypeKeys" "ascii ''oc_2'' \<notin> set objectPrototypeKeys"
    by code_simp+
  have pol: "groupPolicy allowlistContext = GroupAllowlist"
    by code_simp
  have cfg: "groupsConfig allowlistContext = Some (the (groupsConfig allowlistContext))"
    "the (groupsConfig allowlistContext) \<noteq> []"
    by (simp_all add: allowlistContext_def)
  have e1: "(case map_of (the (groupsConfig allowlistContext)) (ascii ''oc_1'') of
                 Some c \<Rightarrow> notDisabled c
               | None \<Rightarrow>
                   (case map_of (the (groupsConfig allowlistContext)) (ascii ''*'') of
                      Some c \<Rightarrow> notDisabled c
                    | None \<Rightarrow> False))"
    by code_simp
  have e2: "\<not> (case map_of (the (groupsConfig allowlistContext)) (ascii ''oc_2'') of
                 Some c \<Rightarrow> notDisabled c
               | None \<Rightarrow>
                   (case map_of (the (groupsConfig allowlistContext)) (ascii ''*'') of
                      Some c \<Rightarrow> notDisabled c
                    | None \<Rightarrow> False))"
    by code_simp
  from isChatAllowed_group_policy [OF g(1) ne(1), of allowlistContext "the (groupsConfig allowlistContext)"]
       pol cfg own(1) e1
  have a1: "isChatAllowed exampleEnv allowlistContext (Some (ascii ''oc_1'')) (Some (ascii ''group''))"
    by blast
  from isChatAllowed_group_policy [OF g(2) ne(2), of allowlistContext "the (groupsConfig allowlistContext)"]
       pol cfg own(2) e2
  have a2: "\<not> isChatAllowed exampleEnv allowlistContext (Some (ascii ''oc_2'')) (Some (ascii ''group''))"
    by blast
  from g own pol a1 a2 show ?thesis by blast
qed

text \<open>
  A chat id that names an inherited property and has no entry of its own finds the
  inherited value, which is not disabled: under \<open>allowlist\<close> the group
  \<open>constructor\<close> is allowed although neither an entry for it nor a wildcard entry is
  configured.
\<close>

lemma isChatAllowed_inherited_name:
  "ascii ''constructor'' \<in> set objectPrototypeKeys \<and>
   map_of (the (groupsConfig allowlistContext)) (ascii ''constructor'') = None \<and>
   map_of (the (groupsConfig allowlistContext)) (ascii ''*'') = None \<and>
   isChatAllowed exampleEnv allowlistContext (Some (ascii ''constructor'')) (Some (ascii ''group''))"
  by code_simp

theorem isChatAllowed_allowlist_counterexample:
  "groupPolicy exampleContext = GroupAllowlist \<and>
   normalizeFeishuChatType exampleEnv (Some (ascii ''group'')) (Some (ascii ''oc_1'')) = Group \<and>
   lookupGroupConfig exampleContext (ascii ''oc_1'') = None \<and>
   lookupGroupConfig exampleContext (ascii ''*'') = None \<and>
   isChatAllowed exampleEnv exampleContext (Some (ascii ''oc_1'')) (Some (ascii ''group''))"
  by code_simp

section \<open>Properties of the direct-message gate\<close>

lemma checkDm_group:
  "\<not> i_isDirectMessage i \<Longrightarrow> checkDmAuthorization E ctx i w = (None, w)"
  by (simp add: checkDmAuthorization_def)

lemma prepare_dm_drop:
  assumes "identifyTurn E ctx event = Inr i" "checkDmAuthorization E ctx i w = (Some d, w1)"
  shows "prepareFeishuMessage E ctx account event opts w = (Inl d, w1)"
  using assms by (simp add: prepareFeishuMessage_def)

lemma identifyTurn_kinds:
  assumes "identifyTurn E ctx event = Inr i"
  shows "i_isDirectMessage i \<longleftrightarrow> \<not> i_isGroup i"
proof -
  have k: "t = Direct \<longleftrightarrow> t \<noteq> Group" for t :: FeishuChatType
    by (cases t) simp_all
  from assms obtain msg sndr where ms: "message event = Some msg" "sender event = Some sndr"
    by (auto simp: identifyTurn_def split: option.splits)
  define t where "t = normalizeFeishuChatType E (chat_type msg) (Some (the_default [] (chat_id msg)))"
  from assms ms have "i_isDirectMessage i = (t = Direct)" "i_isGroup i = (t = Group)"
    by (auto simp: identifyTurn_def Let_def t_def split: if_splits)
  with k show ?thesis by simp
qed

lemma upsert_new:
  "map_of store (channel, ident) = None \<Longrightarrow>
     upsertChannelPairingRequest E store channel ident =
       ((newPairingCode E ident, True), store @ [((channel, ident), newPairingCode E ident)])"
  by (simp add: upsertChannelPairingRequest_def Let_def)

lemma upsert_known:
  "map_of store (channel, ident) = Some code \<Longrightarrow>
     upsertChannelPairingRequest E store channel ident = ((code, False), store)"
  by (simp add: upsertChannelPairingRequest_def)

lemma checkDm_pairing_new:
  assumes "i_isDirectMessage i" "dmEnabled ctx" "dmPolicy ctx = DmPairing"
    and "\<not> allowed (resolveFeishuAllowListMatch E (allowFrom ctx) (i_senderId i) None)"
    and "map_of (pairingRequests w) (ascii ''feishu'', i_senderId i) = None"
  shows "checkDmAuthorization E ctx i w =
           (Some DmPairingPending,
            w\<lparr>pairingRequests :=
                 pairingRequests w @ [((ascii ''feishu'', i_senderId i), newPairingCode E (i_senderId i))],
               sentMessages := sentMessages w @
                 [(i_chatId i,
                   buildPairingReply E (ascii ''Your Feishu user id: '' @ i_senderId i)
                     (newPairingCode E (i_senderId i)))]\<rparr>)"
  unfolding checkDmAuthorization_def Let_def upsert_new [OF assms(5)]
  using assms(1-4) by simp

lemma checkDm_pairing_known:
  assumes "i_isDirectMessage i" "dmEnabled ctx" "dmPolicy ctx = DmPairing"
    and "\<not> allowed (resolveFeishuAllowListMatch E (allowFrom ctx) (i_senderId i) None)"
    and "map_of (pairingRequests w) (ascii ''feishu'', i_senderId i) = Some code"
  shows "checkDmAuthorization E ctx i w = (Some DmPairingPending, w)"
  unfolding checkDmAuthorization_def Let_def upsert_known [OF assms(5)]
  using assms(1-4) by simp

lemma prepare_pairing_new:
  assumes "identifyTurn E ctx event = Inr i" "i_isDirectMessage i" "dmEnabled ctx"
    "dmPolicy ctx = DmPairing"
    "\<not> allowed (resolveFeishuAllowListMatch E (allowFrom ctx) (i_senderId i) None)"
    "map_of (pairingRequests w) (ascii ''feishu'', i_senderId i) = None"
  shows "prepareFeishuMessage E ctx account event opts w =
           (Inl DmPairingPending,
            w\<lparr>pairingRequests :=
                 pairingRequests w @ [((ascii ''feishu'', i_senderId i), newPairingCode E (i_senderId i))],
               sentMessages := sentMessages w @
                 [(i_chatId i,
                   buildPairingReply E (ascii ''Your Feishu user id: '' @ i_senderId i)
                     (newPairingCode E (i_senderId i)))]\<rparr>)"
  using prepare_dm_drop [OF assms(1) checkDm_pairing_new [OF assms(2-6)]] .

lemma prepare_pairing_known:
  assumes "identifyTurn E ctx event = Inr i" "i_isDirectMessage i" "dmEnabled ctx"
    "dmPolicy ctx = DmPairing"
    "\<not> allowed (resolveFeishuAllowListMatch E (allowFrom ctx) (i_senderId i) None)"
    "map_of (pairingRequests w) (ascii ''feishu'', i_senderId i) = Some code"
  shows "prepareFeishuMessage E ctx account event opts w = (Inl DmPairingPending, w)"
  using prepare_dm_drop [OF assms(1) checkDm_pairing_known [OF assms(2-6)]] .

text \<open>
  Claim C9. A direct message under the policy \<open>pairing\<close> whose sender does not match
  the allowlist is dropped, and the pairing reply is sent exactly when the upsert of the
  pairing request reports it as created, which is when no request is pending for the
  sender. A further unmatched message of the same sender, handled in the state the first
  one left, is dropped without another reply.
\<close>

theorem pairing_reply_once:
  assumes first: "identifyTurn E ctx event = Inr i" "i_isDirectMessage i"
    and again: "identifyTurn E ctx event' = Inr i'" "i_isDirectMessage i'"
      "i_senderId i' = i_senderId i"
    and policy: "dmEnabled ctx" "dmPolicy ctx = DmPairing"
    and unmatched: "\<not> allowed (resolveFeishuAllowListMatch E (allowFrom ctx) (i_senderId i) None)"
  shows "let upserted = upsertChannelPairingRequest E (pairingRequests w) (ascii ''feishu'') (i_senderId i);
             code = fst (fst upserted);
             created = snd (fst upserted);
             reply = (i_chatId i, buildPairingReply E (ascii ''Your Feishu user id: '' @ i_senderId i) code);
             r1 = prepareFeishuMessage E ctx account event opts w;
             r2 = prepareFeishuMessage E ctx account event' opts' (snd r1)
         in fst r1 = Inl DmPairingPending \<and>
            sentMessages (snd r1) = sentMessages w @ (if created then [reply] else []) \<and>
            dispatched (snd r1) = dispatched w \<and>
            (created \<longleftrightarrow> map_of (pairingRequests w) (ascii ''feishu'', i_senderId i) = None) \<and>
            fst r2 = Inl DmPairingPending \<and>
            sentMessages (snd r2) = sentMessages (snd r1) \<and>
            dispatched (snd r2) = dispatched w"
proof (cases "map_of (pairingRequests w) (ascii ''feishu'', i_senderId i)")
  case None
  define w1 where "w1 = w\<lparr>pairingRequests :=
                 pairingRequests w @ [((ascii ''feishu'', i_senderId i), newPairingCode E (i_senderId i))],
               sentMessages := sentMessages w @
                 [(i_chatId i,
                   buildPairingReply E (ascii ''Your Feishu user id: '' @ i_senderId i)
                     (newPairingCode E (i_senderId i)))]\<rparr>"
  have r1: "prepareFeishuMessage E ctx account event opts w = (Inl DmPairingPending, w1)"
    unfolding w1_def by (rule prepare_pairing_new [OF first policy unmatched None])
  have known: "map_of (pairingRequests w1) (ascii ''feishu'', i_senderId i') =
                 Some (newPairingCode E (i_senderId i))"
    using None by (simp add: w1_def again(3) map_add_def map_of_append)
  have r2: "prepareFeishuMessage E ctx account event' opts' w1 = (Inl DmPairingPending, w1)"
    using prepare_pairing_known [OF again(1,2) policy _ known] unmatched again(3) by simp
  show ?thesis
    unfolding Let_def upsert_new [OF None] r1 using r2 None by (simp add: w1_def)
next
  case (Some code)
  have r1: "prepareFeishuMessage E ctx account event opts w = (Inl DmPairingPending, w)"
    by (rule prepare_pairing_known [OF first policy unmatched Some])
  have r2: "prepareFeishuMessage E ctx account event' opts' w = (Inl DmPairingPending, w)"
    using prepare_pairing_known [OF again(1,2) policy _ , of w code] unmatched Some again(3) by simp
  show ?thesis
    unfolding Let_def upsert_known [OF Some] r1 using r2 Some by simp
qed

section \<open>Properties of the command gate\<close>

lemma allowListMatch_spec:
  "allowed (resolveFeishuAllowListMatch E allowList ident (Some name)) \<longleftrightarrow>
     spec_matchesAllowList E allowList ident name"
  by (auto simp: resolveFeishuAllowListMatch_def spec_matchesAllowList_def Let_def image_iff)

lemma isFeishuUserAllowed_spec:
  "isFeishuUserAllowed E allowList ident (Some name) \<longleftrightarrow>
     spec_matchesAllowList E allowList ident name"
  by (auto simp: isFeishuUserAllowed_def spec_matchesAllowList_def Let_def image_iff)
     metis+

lemma spec_matchesAllowList_empty: "\<not> spec_matchesAllowList E [] ident name"
  by (simp add: spec_matchesAllowList_def)

lemma commandAuthorized_iff:
  "commandAuthorized (resolveCommandGate E ctx i senderName rawBody) \<longleftrightarrow>
     (allowFrom ctx \<noteq> [] \<and> spec_matchesAllowList E (allowFrom ctx) (i_senderId i) senderName) \<or>
     (i_isGroup i \<and> groupUsers (i_groupConfig i) \<noteq> [] \<and>
      spec_matchesAllowList E (groupUsers (i_groupConfig i)) (i_senderId i) senderName)"
  by (auto simp: resolveCommandGate_def resolveControlCommandGate_def Let_def
        allowListMatch_spec isFeishuUserAllowed_spec)

lemma shouldBlock_iff:
  "shouldBlock (resolveCommandGate E ctx i senderName rawBody) \<longleftrightarrow>
     shouldHandleTextCommands E \<and> hasControlCommand E rawBody \<and>
     \<not> commandAuthorized (resolveCommandGate E ctx i senderName rawBody)"
  by (simp add: resolveCommandGate_def resolveControlCommandGate_def Let_def)

lemma gateTurn_blocked:
  assumes "i_isGroup i" "shouldBlock (resolveCommandGate E ctx i (resolveSenderName E i) (extractMessageText (i_message i)))"
  shows "isl (gateTurn E ctx account i opts)"
  using assms by (simp add: gateTurn_def Let_def)

lemma prepare_group_gate_drop:
  assumes "identifyTurn E ctx event = Inr i" "i_isGroup i" "gateTurn E ctx account i opts = Inl d"
  shows "prepareFeishuMessage E ctx account event opts w = (Inl d, w)"
proof -
  have "\<not> i_isDirectMessage i"
    using identifyTurn_kinds [OF assms(1)] assms(2) by simp
  then have "checkDmAuthorization E ctx i w = (None, w)"
    by (rule checkDm_group)
  with assms(1,3) show ?thesis
    by (simp add: prepareFeishuMessage_def)
qed

text \<open>
  Claim C8. A command is authorized exactly when the sender matches the allowlist of the
  direct-message level and that list is not empty, or the turn is in a group whose users
  list is not empty and the sender matches it; with neither list configured it is not
  authorized. In a group, a recognized control command that is not authorized, with
  command handling enabled, makes \<open>prepareFeishuMessage\<close> drop the turn without any
  effect.
\<close>

theorem command_authorization:
  "(commandAuthorized (resolveCommandGate E ctx i senderName rawBody) \<longleftrightarrow>
      (allowFrom ctx \<noteq> [] \<and> spec_matchesAllowList E (allowFrom ctx) (i_senderId i) senderName) \<or>
      (i_isGroup i \<and> groupUsers (i_groupConfig i) \<noteq> [] \<and>
       spec_matchesAllowList E (groupUsers (i_groupConfig i)) (i_senderId i) senderName)) \<and>
   (allowFrom ctx = [] \<and> groupUsers (i_groupConfig i) = [] \<longrightarrow>
      \<not> commandAuthorized (resolveCommandGate E ctx i senderName rawBody)) \<and>
   (identifyTurn E ctx event = Inr i \<and> i_isGroup i \<and>
    shouldHandleTextCommands E \<and> hasControlCommand E (extractMessageText (i_message i)) \<and>
    \<not> commandAuthorized
        (resolveCommandGate E ctx i (resolveSenderName E i) (extractMessageText (i_message i))) \<longrightarrow>
      isl (fst (prepareFeishuMessage E ctx account event opts w)) \<and>
      snd (prepareFeishuMessage E ctx account event opts w) = w)"
proof -
  have drop: "isl (fst (prepareFeishuMessage E ctx account event opts w)) \<and>
      snd (prepareFeishuMessage E ctx account event opts w) = w"
    if h: "identifyTurn E ctx event = Inr i" "i_isGroup i" "shouldHandleTextCommands E"
      "hasControlCommand E (extractMessageText (i_message i))"
      "\<not> commandAuthorized
        (resolveCommandGate E ctx i (resolveSenderName E i) (extractMessageText (i_message i)))"
  proof -
    from h(3-5) have "shouldBlock
        (resolveCommandGate E ctx i (resolveSenderName E i) (extractMessageText (i_message i)))"
      by (simp add: shouldBlock_iff)
    from gateTurn_blocked [OF h(2) this, of account opts]
    obtain d where "gateTurn E ctx account i opts = Inl d"
      by (cases "gateTurn E ctx account i opts") simp_all
    from prepare_group_gate_drop [OF h(1,2) this] show ?thesis by simp
  qed
  show ?thesis
    using commandAuthorized_iff [of E ctx i senderName rawBody] drop by blast
qed

lemma gateTurn_fields:
  assumes "gateTurn E ctx account i opts = Inr g"
  shows "g_rawBody g = extractMessageText (i_message i)"
    and "g_senderName g = resolveSenderName E i"
    and "trim (g_rawBody g) \<noteq> []"
    and "g_commandGate g = resolveCommandGate E ctx i (resolveSenderName E i) (extractMessageText (i_message i))"
    and "shouldSkip (g_mentionGate g) \<Longrightarrow>
           \<not> (shouldHandleTextCommands E \<and> hasControlCommand E (g_rawBody g) \<and>
              commandAuthorized (g_commandGate g))"
  using assms
  by (auto simp: gateTurn_def Let_def resolveMentionGatingWithBypass_def split: if_splits)

section \<open>Properties of the mention gate\<close>

lemma recordPending_newest:
  assumes "0 < limit"
  shows "\<exists>older. map_of (recordPendingHistoryEntryIfEnabled historyMap key limit (Some e)) key =
                    Some (older @ [e]) \<and>
                  length (older @ [e]) \<le> nat limit"
proof -
  define old where "old = the_default [] (map_of historyMap key)"
  define n where "n = length (old @ [e]) - nat limit"
  have n: "n \<le> length old"
    using assms by (simp add: n_def)
  have "map_of (recordPendingHistoryEntryIfEnabled historyMap key limit (Some e)) key =
          Some (drop n (old @ [e]))"
    using assms by (simp add: recordPendingHistoryEntryIfEnabled_def Let_def old_def n_def)
  moreover have "drop n (old @ [e]) = drop n old @ [e]"
    using n by simp
  moreover have "length (drop n (old @ [e])) \<le> nat limit"
    by (simp add: n_def)
  ultimately show ?thesis by metis
qed

lemma history_context_newest:
  assumes "map_of historyMap key = Some (older @ [e])" "length (older @ [e]) \<le> nat limit"
  shows "buildPendingHistoryContextFromMap historyMap key limit current fmt =
           joinWith (ascii ''\<newline>'') (map fmt older @ [fmt e, current])"
  using assms by (simp add: buildPendingHistoryContextFromMap_def Let_def)

lemma prepare_skip:
  assumes "identifyTurn E ctx event = Inr i" "i_isGroup i" "gateTurn E ctx account i opts = Inr g"
    "g_shouldRequireMention g" "shouldSkip (g_mentionGate g)"
  shows "prepareFeishuMessage E ctx account event opts w =
           (Inl NoMention,
            w\<lparr>chatHistories :=
                 recordPendingHistoryEntryIfEnabled (chatHistories w) (g_historyKey g)
                   (historyLimit ctx) (pendingEntry E i g)\<rparr>)"
proof -
  have "\<not> i_isDirectMessage i"
    using identifyTurn_kinds [OF assms(1)] assms(2) by simp
  then have "checkDmAuthorization E ctx i w = (None, w)"
    by (rule checkDm_group)
  with assms show ?thesis
    by (simp add: prepareFeishuMessage_def)
qed

text \<open>
  Claim C7, for a positive history limit. A group turn that requires a mention and that
  the mention gate skips is dropped with the reason \<open>no-mention\<close>: nothing is sent or
  dispatched, and its sender, body, time stamp and message id are the newest entry of the
  pending history under the history key of the turn, which holds at most
  \<open>historyLimit\<close> entries. The transcript that a later message of the conversation
  takes from this history ends with the entry, followed by that message. An authorized
  control command, with command handling enabled, is never skipped.
\<close>

theorem mention_skip_recorded:
  assumes "identifyTurn E ctx event = Inr i" and "gateTurn E ctx account i opts = Inr g"
  shows "(i_isGroup i \<and> g_shouldRequireMention g \<and> shouldSkip (g_mentionGate g) \<longrightarrow>
            fst (prepareFeishuMessage E ctx account event opts w) = Inl NoMention \<and>
            sentMessages (snd (prepareFeishuMessage E ctx account event opts w)) = sentMessages w \<and>
            dispatched (snd (prepareFeishuMessage E ctx account event opts w)) = dispatched w \<and>
            (0 < historyLimit ctx \<longrightarrow>
               (\<exists>older.
                  map_of (chatHistories (snd (prepareFeishuMessage E ctx account event opts w)))
                    (g_historyKey g) =
                    Some (older @
                      [\<lparr>entrySender = resolveSenderName E i,
                        entryBody = extractMessageText (i_message i),
                        entryTimestamp = messageTimestamp E (i_message i),
                        entryMessageId = message_id (i_message i)\<rparr>]) \<and>
                  length older < nat (historyLimit ctx) \<and>
                  buildPendingHistoryContextFromMap
                    (chatHistories (snd (prepareFeishuMessage E ctx account event opts w)))
                    (g_historyKey g) (historyLimit ctx) current formatEntry =
                    joinWith (ascii ''\<newline>'')
                      (map formatEntry older @
                       [formatEntry
                          \<lparr>entrySender = resolveSenderName E i,
                           entryBody = extractMessageText (i_message i),
                           entryTimestamp = messageTimestamp E (i_message i),
                           entryMessageId = message_id (i_message i)\<rparr>,
                        current])))) \<and>
         (shouldHandleTextCommands E \<and> hasControlCommand E (extractMessageText (i_message i)) \<and>
          commandAuthorized (g_commandGate g) \<longrightarrow> \<not> shouldSkip (g_mentionGate g))"
proof -
  note f = gateTurn_fields [OF assms(2)]
  have body: "g_rawBody g \<noteq> []"
    using f(3) by (auto simp: trim_def trimStart_def trimEnd_def)
  define e where "e = \<lparr>entrySender = resolveSenderName E i,
                        entryBody = extractMessageText (i_message i),
                        entryTimestamp = messageTimestamp E (i_message i),
                        entryMessageId = message_id (i_message i)\<rparr>"
  have pe: "pendingEntry E i g = Some e"
    using body f(1,2) by (simp add: pendingEntry_def e_def)
  have skip: "fst (prepareFeishuMessage E ctx account event opts w) = Inl NoMention \<and>
            sentMessages (snd (prepareFeishuMessage E ctx account event opts w)) = sentMessages w \<and>
            dispatched (snd (prepareFeishuMessage E ctx account event opts w)) = dispatched w \<and>
            (0 < historyLimit ctx \<longrightarrow>
               (\<exists>older.
                  map_of (chatHistories (snd (prepareFeishuMessage E ctx account event opts w)))
                    (g_historyKey g) = Some (older @ [e]) \<and>
                  length older < nat (historyLimit ctx) \<and>
                  buildPendingHistoryContextFromMap
                    (chatHistories (snd (prepareFeishuMessage E ctx account event opts w)))
                    (g_historyKey g) (historyLimit ctx) current formatEntry =
                    joinWith (ascii ''\<newline>'') (map formatEntry older @ [formatEntry e, current])))"
    if h: "i_isGroup i" "g_shouldRequireMention g" "shouldSkip (g_mentionGate g)"
  proof -
    note p = prepare_skip [OF assms(1) h(1) assms(2) h(2,3), of w]
    define hm where "hm = chatHistories (snd (prepareFeishuMessage E ctx account event opts w))"
    have hm: "hm = recordPendingHistoryEntryIfEnabled (chatHistories w) (g_historyKey g)
                     (historyLimit ctx) (Some e)"
      by (simp add: hm_def p pe)
    have "0 < historyLimit ctx \<longrightarrow>
               (\<exists>older.
                  map_of hm (g_historyKey g) = Some (older @ [e]) \<and>
                  length older < nat (historyLimit ctx) \<and>
                  buildPendingHistoryContextFromMap hm (g_historyKey g) (historyLimit ctx)
                    current formatEntry =
                    joinWith (ascii ''\<newline>'') (map formatEntry older @ [formatEntry e, current]))"
    proof
      assume "0 < historyLimit ctx"
      from recordPending_newest [OF this, of "chatHistories w" "g_historyKey g" e]
      obtain older where o: "map_of hm (g_historyKey g) = Some (older @ [e])"
        "length (older @ [e]) \<le> nat (historyLimit ctx)"
        unfolding hm by blast
      from history_context_newest [OF o, of current formatEntry] o
      show "\<exists>older.
                  map_of hm (g_historyKey g) = Some (older @ [e]) \<and>
                  length older < nat (historyLimit ctx) \<and>
                  buildPendingHistoryContextFromMap hm (g_historyKey g) (historyLimit ctx)
                    current formatEntry =
                    joinWith (ascii ''\<newline>'') (map formatEntry older @ [formatEntry e, current])"
        by (intro exI [of _ older]) simp
    qed
    then show ?thesis unfolding hm_def by (simp add: p)
  qed
  have bypass: "shouldHandleTextCommands E \<and> hasControlCommand E (extractMessageText (i_message i)) \<and>
          commandAuthorized (g_commandGate g) \<longrightarrow> \<not> shouldSkip (g_mentionGate g)"
    using f(5) f(1) by auto
  from skip bypass show ?thesis
    unfolding e_def by blast
qed

section \<open>Properties of the merge on flush\<close>

lemma shouldDebounce_text: "shouldDebounce E entry \<Longrightarrow> extractEventText (fst entry) \<noteq> []"
  by (auto simp: shouldDebounce_def Let_def trim_def trimStart_def trimEnd_def split: if_splits)

lemma combineText_debounced:
  assumes "1 < length entries \<longrightarrow> (\<forall>entry\<in>set entries. shouldDebounce E entry)"
  shows "combineText entries =
           (if length entries = 1 then extractEventText (fst (last entries))
            else joinWith (ascii ''\<newline>'') (map (\<lambda>entry. extractEventText (fst entry)) entries))"
proof (cases "1 < length entries")
  case True
  with assms have "\<forall>entry\<in>set entries. extractEventText (fst entry) \<noteq> []"
    using shouldDebounce_text by blast
  then have "filter (\<lambda>t. t \<noteq> []) (map (\<lambda>entry. extractEventText (fst entry)) entries) =
               map (\<lambda>entry. extractEventText (fst entry)) entries"
    by (simp add: filter_id_conv)
  then show ?thesis by (simp add: combineText_def)
next
  case False
  then have "length entries = 0 \<or> length entries = 1" by linarith
  then show ?thesis by (auto simp: combineText_def)
qed

lemma extract_synthetic:
  "extractMessageText (m\<lparr>content := stringifyText body\<rparr>) =
     (if message_type m = ascii ''text'' then body else [])"
  by (simp add: extractMessageText_def stringifyText_def extractPostText_def)

lemma memberIds_filter:
  "map (the_default [])
     (filter truthy (map (\<lambda>entry. case message (fst entry) of None \<Rightarrow> None | Some msg \<Rightarrow> message_id msg) entries)) =
   memberIds entries"
proof (induction entries)
  case Nil
  then show ?case by (simp add: memberIds_def)
next
  case (Cons a entries)
  then show ?case
    by (cases "message (fst a)"; cases "message_id (the (message (fst a)))")
       (auto simp: memberIds_def)
qed

lemma recordMessageIds_payload:
  "1 < length entries \<Longrightarrow> memberIds entries \<noteq> [] \<Longrightarrow>
     p_ctxPayload (recordMessageIds entries prepared) =
       (p_ctxPayload prepared)\<lparr>MessageSids := Some (memberIds entries),
          MessageSidFirst := Some (hd (memberIds entries)),
          MessageSidLast := Some (last (memberIds entries))\<rparr>"
  by (simp add: recordMessageIds_def Let_def memberIds_filter)

lemma combinedOpts_any:
  "\<exists>entry\<in>set entries. wasMentioned (snd entry) = Some True \<Longrightarrow>
     wasMentioned (combinedOpts entries) = Some True"
  by (auto simp: combinedOpts_def Let_def list_ex_iff)

lemma identifyTurn_message:
  "identifyTurn E ctx event = Inr i \<Longrightarrow> message event = Some (i_message i)"
  by (auto simp: identifyTurn_def Let_def split: option.splits if_splits)

lemma trim_Nil: "trim [] = []"
  by (simp add: trim_def trimStart_def trimEnd_def)

lemma gateTurn_empty_body:
  "extractMessageText (i_message i) = [] \<Longrightarrow> isl (gateTurn E ctx account i opts)"
  by (simp add: gateTurn_def Let_def trim_Nil)

lemma checkDm_dispatched:
  "dispatched (snd (checkDmAuthorization E ctx i w)) = dispatched w"
  by (simp add: checkDmAuthorization_def Let_def)

lemma prepare_empty_body:
  assumes "extractEventText event = []"
  shows "isl (fst (prepareFeishuMessage E ctx account event opts w)) \<and>
         dispatched (snd (prepareFeishuMessage E ctx account event opts w)) = dispatched w"
proof (cases "identifyTurn E ctx event")
  case (Inl d)
  then show ?thesis by (simp add: prepareFeishuMessage_def)
next
  case (Inr i)
  from identifyTurn_message [OF Inr] assms have "extractMessageText (i_message i) = []"
    by (simp add: extractEventText_def)
  from gateTurn_empty_body [OF this, of E ctx account opts]
  obtain d where g: "gateTurn E ctx account i opts = Inl d"
    by (cases "gateTurn E ctx account i opts") simp_all
  obtain r w1 where c: "checkDmAuthorization E ctx i w = (r, w1)"
    by (cases "checkDmAuthorization E ctx i w")
  from checkDm_dispatched [of E ctx i w] c have "dispatched w1 = dispatched w"
    by simp
  with Inr g c show ?thesis
    by (cases r) (simp_all add: prepareFeishuMessage_def)
qed

lemma buildContext_shape:
  "\<exists>payload w2.
     buildContext E ctx account event i g w =
       (if \<not> truthy (To (finalizeInboundContext E payload)) then (Inl NoReplyTarget, w2)
        else
          (Inr \<lparr>p_account = account, p_event = event, p_route = g_route g,
                 p_groupConfig = i_groupConfig i,
                 p_replyTarget = the_default [] (To (finalizeInboundContext E payload)),
                 p_ctxPayload = finalizeInboundContext E payload,
                 p_isDirectMessage = i_isDirectMessage i, p_isGroup = i_isGroup i,
                 p_historyKey = g_historyKey g,
                 p_preview = take 160 (collapseWhitespace (g_rawBody g)),
                 p_threadContext = g_threadContext g\<rparr>,
           w2)) \<and>
     RawBody payload = g_rawBody g \<and> CommandBody payload = g_rawBody g \<and>
     MessageSid payload = message_id (i_message i) \<and>
     ReplyToId payload = replyToId (g_threadContext g) \<and>
     MessageThreadId payload = rootId (g_threadContext g) \<and>
     Timestamp payload = messageTimestamp E (i_message i) \<and>
     WasMentioned payload =
       (if i_isGroup i then Some (effectiveWasMentioned (g_mentionGate g)) else None) \<and>
     MessageSids payload = None \<and>
     dispatched w2 = dispatched w"
  unfolding buildContext_def Let_def
  apply (intro exI conjI)
           apply (rule refl)
          apply (simp_all only: FinalizedMsgContext.select_convs)
  apply simp
  done


lemma prepare_turn:
  assumes "prepareFeishuMessage E ctx account event opts w = (Inr turn, w')"
  shows "\<exists>i g w1. identifyTurn E ctx event = Inr i \<and> gateTurn E ctx account i opts = Inr g \<and>
           dispatched w1 = dispatched w \<and>
           buildContext E ctx account event i g w1 = (Inr turn, w')"
proof (cases "identifyTurn E ctx event")
  case (Inl d)
  with assms show ?thesis by (simp add: prepareFeishuMessage_def)
next
  case (Inr i)
  obtain r w1 where c: "checkDmAuthorization E ctx i w = (r, w1)"
    by (cases "checkDmAuthorization E ctx i w")
  from checkDm_dispatched [of E ctx i w] c have d: "dispatched w1 = dispatched w"
    by simp
  show ?thesis
  proof (cases r)
    case (Some d)
    with assms Inr c show ?thesis by (simp add: prepareFeishuMessage_def)
  next
    case None
    show ?thesis
    proof (cases "gateTurn E ctx account i opts")
      case (Inl d)
      with assms Inr c None show ?thesis by (simp add: prepareFeishuMessage_def)
    next
      case g: (Inr g)
      from assms Inr c None g have "buildContext E ctx account event i g w1 = (Inr turn, w')"
        by (simp add: prepareFeishuMessage_def split: if_splits)
      with Inr g d show ?thesis by blast
    qed
  qed
qed

lemma thread_context_content:
  "resolveFeishuThreadContext (m\<lparr>content := c\<rparr>) = resolveFeishuThreadContext m"
  by (simp add: resolveFeishuThreadContext_def)

lemma gateTurn_threadContext:
  "gateTurn E ctx account i opts = Inr g \<Longrightarrow> g_threadContext g = resolveFeishuThreadContext (i_message i)"
  by (auto simp: gateTurn_def Let_def split: if_splits)

text \<open>
  A bucket whose last message is of type \<open>text\<close>, and whose members were all debounced
  when it has more than one: whenever the preparation of the synthetic event yields a
  turn, that turn is dispatched with the message ids recorded, and the payload that was
  finalised for it has as its raw body and command body the text of the single member, or
  the texts of all members in arrival order joined by newlines, and the message id and
  thread of the last message.
\<close>

lemma merged_text_turn:
  assumes "entries \<noteq> []" and "message (fst (last entries)) = Some lastMessage"
    and "message_type lastMessage = ascii ''text''"
    and "1 < length entries \<longrightarrow> (\<forall>entry\<in>set entries. shouldDebounce E entry)"
    and "prepareFeishuMessage E ctx account (syntheticEvent entries) (combinedOpts entries) w = (Inr turn, w')"
  shows "dispatched (onFlush E ctx account entries w) = dispatched w @ [recordMessageIds entries turn]"
    and "\<exists>payload. p_ctxPayload turn = finalizeInboundContext E payload \<and>
           RawBody payload =
             (if length entries = 1 then extractMessageText lastMessage
              else joinWith (ascii ''\<newline>'') (map (\<lambda>entry. extractEventText (fst entry)) entries)) \<and>
           CommandBody payload = RawBody payload \<and>
           MessageSid payload = message_id lastMessage \<and>
           ReplyToId payload = replyToId (resolveFeishuThreadContext lastMessage) \<and>
           MessageThreadId payload = rootId (resolveFeishuThreadContext lastMessage)"
proof -
  define body where "body = (if length entries = 1 then extractMessageText lastMessage
              else joinWith (ascii ''\<newline>'') (map (\<lambda>entry. extractEventText (fst entry)) entries))"
  have ct: "combineText entries = body"
    using combineText_debounced [OF assms(4)] assms(2)
    by (simp add: body_def extractEventText_def)
  have syn: "message (syntheticEvent entries) = Some (lastMessage\<lparr>content := stringifyText body\<rparr>)"
    using assms(2) by (simp add: syntheticEvent_def Let_def ct)
  from prepare_turn [OF assms(5)] obtain i g w1 where
    t: "identifyTurn E ctx (syntheticEvent entries) = Inr i"
       "gateTurn E ctx account i (combinedOpts entries) = Inr g"
       "dispatched w1 = dispatched w"
       "buildContext E ctx account (syntheticEvent entries) i g w1 = (Inr turn, w')"
    by blast
  from identifyTurn_message [OF t(1)] syn
  have m: "i_message i = lastMessage\<lparr>content := stringifyText body\<rparr>"
    by simp
  have raw: "g_rawBody g = body"
    using gateTurn_fields(1) [OF t(2)] assms(3) by (simp add: m extract_synthetic)
  have tc: "g_threadContext g = resolveFeishuThreadContext lastMessage"
    using gateTurn_threadContext [OF t(2)] by (simp add: m thread_context_content)
  from buildContext_shape [of E ctx account "syntheticEvent entries" i g w1]
  obtain payload w2 where
    s: "buildContext E ctx account (syntheticEvent entries) i g w1 =
         (if \<not> truthy (To (finalizeInboundContext E payload)) then (Inl NoReplyTarget, w2)
          else
            (Inr \<lparr>p_account = account, p_event = syntheticEvent entries, p_route = g_route g,
                   p_groupConfig = i_groupConfig i,
                   p_replyTarget = the_default [] (To (finalizeInboundContext E payload)),
                   p_ctxPayload = finalizeInboundContext E payload,
                   p_isDirectMessage = i_isDirectMessage i, p_isGroup = i_isGroup i,
                   p_historyKey = g_historyKey g,
                   p_preview = take 160 (collapseWhitespace (g_rawBody g)),
                   p_threadContext = g_threadContext g\<rparr>,
             w2))"
    and f: "RawBody payload = g_rawBody g" "CommandBody payload = g_rawBody g"
       "MessageSid payload = message_id (i_message i)"
       "ReplyToId payload = replyToId (g_threadContext g)"
       "MessageThreadId payload = rootId (g_threadContext g)"
       "dispatched w2 = dispatched w1"
    by blast
  from s t(4) have p: "p_ctxPayload turn = finalizeInboundContext E payload" and w: "w' = w2"
    by (auto split: if_splits)
  from f(6) t(3) w have "dispatched w' = dispatched w"
    by simp
  with assms(1,5) show "dispatched (onFlush E ctx account entries w) = dispatched w @ [recordMessageIds entries turn]"
    by (simp add: onFlush_def dispatchPreparedFeishuMessage_def)
  from p f(1-5) raw tc m
  show "\<exists>payload. p_ctxPayload turn = finalizeInboundContext E payload \<and>
           RawBody payload =
             (if length entries = 1 then extractMessageText lastMessage
              else joinWith (ascii ''\<newline>'') (map (\<lambda>entry. extractEventText (fst entry)) entries)) \<and>
           CommandBody payload = RawBody payload \<and>
           MessageSid payload = message_id lastMessage \<and>
           ReplyToId payload = replyToId (resolveFeishuThreadContext lastMessage) \<and>
           MessageThreadId payload = rootId (resolveFeishuThreadContext lastMessage)"
    unfolding body_def [symmetric] by (intro exI [of _ payload]) simp
qed

text \<open>
  Claim C5. The synthetic event of \<open>onFlush\<close> is the last event of the bucket with the
  content of its message replaced by \<open>JSON.stringify({ text: combinedText })\<close>; the
  message type of the last event is kept. When the last message is not of type
  \<open>text\<close>, \<open>extractMessageText\<close> therefore reads nothing from the synthetic event,
  \<open>prepareFeishuMessage\<close> returns null and no turn is dispatched, whatever the combined
  text of the members: the merged turn whose body is the combined text is not produced.
\<close>

theorem flush_drops_nontext_bucket:
  assumes "entries \<noteq> []" and "message (fst (last entries)) = Some lastMessage"
    and "message_type lastMessage \<noteq> ascii ''text''"
  shows "syntheticEvent entries =
           (fst (last entries))\<lparr>message :=
              Some (lastMessage\<lparr>content := stringifyText (combineText entries)\<rparr>)\<rparr> \<and>
         extractEventText (syntheticEvent entries) = [] \<and>
         isl (fst (prepareFeishuMessage E ctx account (syntheticEvent entries) (combinedOpts entries) w)) \<and>
         dispatched (onFlush E ctx account entries w) = dispatched w"
proof -
  have syn: "syntheticEvent entries =
           (fst (last entries))\<lparr>message :=
              Some (lastMessage\<lparr>content := stringifyText (combineText entries)\<rparr>)\<rparr>"
    using assms(2) by (simp add: syntheticEvent_def Let_def)
  have ext: "extractEventText (syntheticEvent entries) = []"
    using assms(3) by (simp add: syn extractEventText_def extract_synthetic)
  note p = prepare_empty_body [OF ext, of E ctx account "combinedOpts entries" w]
  have "dispatched (onFlush E ctx account entries w) = dispatched w"
    using assms(1) p
    by (cases "prepareFeishuMessage E ctx account (syntheticEvent entries) (combinedOpts entries) w";
        cases "fst (prepareFeishuMessage E ctx account (syntheticEvent entries) (combinedOpts entries) w)")
       (simp_all add: onFlush_def)
  with syn ext p show ?thesis by blast
qed

section \<open>Properties of the deduplicating handler\<close>

lemma dedupeCheck_params:
  "ttlMs (snd (dedupeCheck c key now)) = ttlMs c"
  "maxSize (snd (dedupeCheck c key now)) = maxSize c"
  by (simp_all add: dedupeCheck_def Let_def)

lemma markMessageSeen_params:
  "ttlMs (snd (markMessageSeen c chat mid now)) = ttlMs c"
  "maxSize (snd (markMessageSeen c chat mid now)) = maxSize c"
  by (simp_all add: markMessageSeen_def dedupeCheck_params)

lemma handler_seen:
  "seenMessages (feishuMessageHandler now event opts st) =
     (case message event of
        None \<Rightarrow> seenMessages st
      | Some msg \<Rightarrow> snd (markMessageSeen (seenMessages st) (chat_id msg) (message_id msg) now))"
  by (simp add: feishuMessageHandler_def Let_def split: option.splits)

lemma handler_params:
  "ttlMs (seenMessages (feishuMessageHandler now event opts st)) = ttlMs (seenMessages st)"
  "maxSize (seenMessages (feishuMessageHandler now event opts st)) = maxSize (seenMessages st)"
  by (simp_all add: handler_seen markMessageSeen_params split: option.splits)

lemma filter_fresh: "k \<notin> fst ` set xs \<Longrightarrow> filter (\<lambda>e. fst e \<noteq> k) xs = xs"
  by (induction xs) auto

lemma holds_seen:
  assumes "holds k bound n c" "now < bound"
  shows "fst (dedupeCheck c k now)"
proof -
  from assms(1) obtain pre x post where
    c: "cacheEntries c = pre @ (k, x) # post" "k \<notin> fst ` set pre" "bound \<le> x"
    unfolding holds_def by blast
  have "map_of (pre @ (k, x) # post) k = Some x"
    using c(2) by (induction pre) auto
  with c(1,3) assms(2) show ?thesis
    by (simp add: dedupeCheck_def Let_def)
qed

lemma holds_after_check:
  assumes "0 < ttlMs c" "1 \<le> maxSize c"
  shows "holds k (now + ttlMs c) 0 (snd (dedupeCheck c k now))"
proof -
  define A where "A = filter (\<lambda>e. fst e \<noteq> k) (cacheEntries c)"
  define z where "z = (k, now + ttlMs c)"
  have kA: "k \<notin> fst ` set A" by (auto simp: A_def)
  define L where "L = filter (\<lambda>e. now < snd e) A"
  have live: "filter (\<lambda>e. now < snd e) (A @ [z]) = L @ [z]"
    using assms(1) by (simp add: L_def z_def)
  have kL: "k \<notin> fst ` set L" using kA by (auto simp: L_def)
  define d where "d = length (L @ [z]) - maxSize c"
  have d: "d \<le> length L" using assms(2) by (simp add: d_def)
  have "cacheEntries (snd (dedupeCheck c k now)) =
          (if maxSize c < length (A @ [z]) then drop d (L @ [z]) else A @ [z])"
    unfolding dedupeCheck_def Let_def A_def [symmetric] z_def [symmetric] live d_def by simp
  moreover have "drop d (L @ [z]) = drop d L @ [z]" using d by simp
  moreover have "k \<notin> fst ` set (drop d L)"
    using kL set_drop_subset [of d L] by auto
  ultimately show ?thesis
    unfolding holds_def using kA by (auto simp: z_def intro!: exI [of _ "[]"])
qed

lemma holds_mono: "holds k bound n c \<Longrightarrow> n \<le> n' \<Longrightarrow> holds k bound n' c"
  unfolding holds_def by (meson order_trans)

lemma holds_same_entries:
  "holds k bound n c \<Longrightarrow> cacheEntries c' = cacheEntries c \<Longrightarrow> holds k bound n c'"
  by (simp add: holds_def)

lemma holds_other_key:
  assumes h: "holds k bound n c" and now: "now < bound" and other: "key \<noteq> k"
    and room: "n + 2 \<le> maxSize c"
  shows "holds k bound (Suc n) (snd (dedupeCheck c key now))"
proof -
  from h obtain pre x post where
    c: "cacheEntries c = pre @ (k, x) # post" "k \<notin> fst ` set pre" "k \<notin> fst ` set post"
      "bound \<le> x" "length post \<le> n"
    unfolding holds_def by blast
  define z where "z = (key, now + ttlMs c)"
  define A where "A = filter (\<lambda>e. fst e \<noteq> key) pre"
  define B where "B = filter (\<lambda>e. fst e \<noteq> key) post @ [z]"
  have ins: "filter (\<lambda>e. fst e \<noteq> key) (cacheEntries c) @ [z] = A @ (k, x) # B"
    using other by (simp add: c(1) A_def B_def)
  have kA: "k \<notin> fst ` set A" using c(2) by (auto simp: A_def)
  have kB: "k \<notin> fst ` set B" using c(3) other by (auto simp: B_def z_def)
  have lB: "length B \<le> Suc n"
    using order_trans [OF length_filter_le c(5), of "\<lambda>e. fst e \<noteq> key"] by (simp add: B_def)
  define LA where "LA = filter (\<lambda>e. now < snd e) A"
  define LB where "LB = filter (\<lambda>e. now < snd e) B"
  have live: "filter (\<lambda>e. now < snd e) (A @ (k, x) # B) = LA @ (k, x) # LB"
    using now c(4) by (simp add: LA_def LB_def)
  have kLA: "k \<notin> fst ` set LA" using kA by (auto simp: LA_def)
  have kLB: "k \<notin> fst ` set LB" using kB by (auto simp: LB_def)
  have lLB: "length LB \<le> Suc n"
    using order_trans [OF length_filter_le lB, of "\<lambda>e. now < snd e"] by (simp add: LB_def)
  define d where "d = length (LA @ (k, x) # LB) - maxSize c"
  have d: "d \<le> length LA" using lLB room by (simp add: d_def)
  have "cacheEntries (snd (dedupeCheck c key now)) =
          (if maxSize c < length (A @ (k, x) # B) then drop d (LA @ (k, x) # LB)
           else A @ (k, x) # B)"
    unfolding dedupeCheck_def Let_def z_def [symmetric] ins live d_def by simp
  moreover have "drop d (LA @ (k, x) # LB) = drop d LA @ (k, x) # LB" using d by simp
  moreover have "k \<notin> fst ` set (drop d LA)"
    using kLA set_drop_subset [of d LA] by auto
  ultimately show ?thesis
    unfolding holds_def using kA kB kLB lB lLB c(4) by auto
qed

lemma holds_same_key:
  assumes h: "holds k bound n c" and now: "bound \<le> now + ttlMs c" and ttl: "0 < ttlMs c"
    and room: "1 \<le> maxSize c"
  shows "holds k bound (Suc n) (snd (dedupeCheck c k now))"
proof -
  have "holds k (now + ttlMs c) 0 (snd (dedupeCheck c k now))"
    using holds_after_check [OF ttl room] .
  then show ?thesis
    unfolding holds_def using now by (meson le0 order_trans)
qed

lemma handler_holds_step:
  assumes h: "holds k bound n (seenMessages st)"
    and t: "t1 \<le> now" "now < bound" and b: "bound = t1 + ttlMs (seenMessages st)"
    and ttl: "0 < ttlMs (seenMessages st)" and room: "n + 2 \<le> maxSize (seenMessages st)"
  shows "holds k bound (Suc n) (seenMessages (feishuMessageHandler now event opts st))"
proof (cases "message event")
  case None
  then show ?thesis using h holds_mono by (simp add: handler_seen)
next
  case (Some msg)
  show ?thesis
  proof (cases "\<not> truthy (chat_id msg) \<or> \<not> truthy (message_id msg)")
    case True
    then show ?thesis
      using h holds_mono Some by (auto simp: handler_seen markMessageSeen_def)
  next
    case False
    define key where "key = the_default [] (chat_id msg) @ ascii '':'' @ the_default [] (message_id msg)"
    have s: "seenMessages (feishuMessageHandler now event opts st) =
               snd (dedupeCheck (seenMessages st) key now)"
      using False Some by (simp add: handler_seen markMessageSeen_def key_def)
    show ?thesis
    proof (cases "key = k")
      case True
      have "bound \<le> now + ttlMs (seenMessages st)" using t(1) b by simp
      from holds_same_key [OF h this ttl] room show ?thesis
        unfolding s True by simp
    next
      case other: False
      from holds_other_key [OF h t(2) other room] show ?thesis
        unfolding s .
    qed
  qed
qed

lemma deliverAll_params:
  "ttlMs (seenMessages (deliverAll ds st)) = ttlMs (seenMessages st) \<and>
   maxSize (seenMessages (deliverAll ds st)) = maxSize (seenMessages st)"
  by (induction ds st rule: deliverAll.induct) (simp_all add: handler_params)

lemma deliverAll_holds:
  assumes "holds k bound n (seenMessages st)"
    and "bound = t1 + ttlMs (seenMessages st)" and "0 < ttlMs (seenMessages st)"
    and "\<forall>d\<in>set ds. t1 \<le> fst d \<and> fst d < bound"
    and "n + length ds + 1 \<le> maxSize (seenMessages st)"
  shows "holds k bound (n + length ds) (seenMessages (deliverAll ds st))"
  using assms
proof (induction ds arbitrary: st n)
  case Nil
  then show ?case by simp
next
  case (Cons d ds)
  obtain now event opts where d: "d = (now, event, opts)" by (cases d) auto
  define st' where "st' = feishuMessageHandler now event opts st"
  have p: "ttlMs (seenMessages st') = ttlMs (seenMessages st)"
    "maxSize (seenMessages st') = maxSize (seenMessages st)"
    by (simp_all add: st'_def handler_params)
  have step: "holds k bound (Suc n) (seenMessages st')"
    unfolding st'_def
    using Cons.prems handler_holds_step [of k bound n st t1 now event opts] by (auto simp: d)
  have "holds k bound (Suc n + length ds) (seenMessages (deliverAll ds st'))"
    using Cons.prems by (intro Cons.IH [OF step]) (auto simp: p)
  then show ?case by (simp add: d st'_def)
qed

lemma handler_drops_held:
  assumes "holds k bound n (seenMessages st)" "now < bound"
    and "message event = Some msg" "chat_id msg = Some chat" "message_id msg = Some mid"
    and "chat \<noteq> []" "mid \<noteq> []" "k = chat @ ascii '':'' @ mid"
  shows "enqueued (feishuMessageHandler now event opts st) = enqueued st"
proof -
  have "fst (markMessageSeen (seenMessages st) (chat_id msg) (message_id msg) now)"
    using holds_seen [OF assms(1,2)] assms(4-8) by (simp add: markMessageSeen_def)
  then show ?thesis
    using assms(3) by (simp add: feishuMessageHandler_def Let_def)
qed

lemma handler_first_holds:
  assumes "message event = Some msg" "chat_id msg = Some chat" "message_id msg = Some mid"
    and "chat \<noteq> []" "mid \<noteq> []"
    and "0 < ttlMs (seenMessages st)" "1 \<le> maxSize (seenMessages st)"
  shows "holds (chat @ ascii '':'' @ mid) (now + ttlMs (seenMessages st)) 0
           (seenMessages (feishuMessageHandler now event opts st))"
  using holds_after_check [OF assms(6,7), of "chat @ ascii '':'' @ mid" now] assms(1-5)
  by (simp add: handler_seen markMessageSeen_def)

text \<open>
  Claim C1, with the capacity of the cache taken into account. After an event with a
  non-empty chat id and message id was handled, a second delivery with the same pair
  within the retention window is dropped and nothing is enqueued for it, provided that
  fewer deliveries were handled in between than the cache holds keys (500). An event
  whose chat id or message id is missing or empty is enqueued and leaves the cache as it
  was.
\<close>

theorem redelivery_dropped:
  "(message event = Some msg \<and> chat_id msg = Some chat \<and> message_id msg = Some mid \<and>
    chat \<noteq> [] \<and> mid \<noteq> [] \<and>
    message event' = Some msg' \<and> chat_id msg' = Some chat \<and> message_id msg' = Some mid \<and>
    0 < ttlMs (seenMessages st) \<and> length between < maxSize (seenMessages st) \<and>
    (\<forall>d\<in>set between. t1 \<le> fst d \<and> fst d < t1 + ttlMs (seenMessages st)) \<and>
    t2 < t1 + ttlMs (seenMessages st) \<longrightarrow>
      enqueued (feishuMessageHandler t2 event' opts'
                  (deliverAll between (feishuMessageHandler t1 event opts st))) =
      enqueued (deliverAll between (feishuMessageHandler t1 event opts st))) \<and>
   (message event = Some msg \<and> (\<not> truthy (chat_id msg) \<or> \<not> truthy (message_id msg)) \<longrightarrow>
      feishuMessageHandler t1 event opts st = st\<lparr>enqueued := enqueued st @ [(event, opts)]\<rparr>)"
proof -
  have dropped: "enqueued (feishuMessageHandler t2 event' opts'
                  (deliverAll between (feishuMessageHandler t1 event opts st))) =
      enqueued (deliverAll between (feishuMessageHandler t1 event opts st))"
    if h: "message event = Some msg" "chat_id msg = Some chat" "message_id msg = Some mid"
      "chat \<noteq> []" "mid \<noteq> []"
      "message event' = Some msg'" "chat_id msg' = Some chat" "message_id msg' = Some mid"
      "0 < ttlMs (seenMessages st)" "length between < maxSize (seenMessages st)"
      "\<forall>d\<in>set between. t1 \<le> fst d \<and> fst d < t1 + ttlMs (seenMessages st)"
      "t2 < t1 + ttlMs (seenMessages st)"
  proof -
    define k where "k = chat @ ascii '':'' @ mid"
    define bound where "bound = t1 + ttlMs (seenMessages st)"
    define st1 where "st1 = feishuMessageHandler t1 event opts st"
    have p: "ttlMs (seenMessages st1) = ttlMs (seenMessages st)"
      "maxSize (seenMessages st1) = maxSize (seenMessages st)"
      by (simp_all add: st1_def handler_params)
    have "1 \<le> maxSize (seenMessages st)" using h(10) by simp
    from handler_first_holds [OF h(1-5) h(9) this, of t1 opts]
    have first: "holds k bound 0 (seenMessages st1)"
      by (simp add: k_def bound_def st1_def)
    have "holds k bound (0 + length between) (seenMessages (deliverAll between st1))"
      using h(9-11) first deliverAll_holds [of k bound 0 st1 t1 between] by (auto simp: p bound_def)
    from handler_drops_held [OF this _ h(6-8) h(4,5) k_def, of t2 opts'] h(12)
    show ?thesis by (simp add: bound_def st1_def)
  qed
  have passed: "feishuMessageHandler t1 event opts st = st\<lparr>enqueued := enqueued st @ [(event, opts)]\<rparr>"
    if "message event = Some msg" "\<not> truthy (chat_id msg) \<or> \<not> truthy (message_id msg)"
    using that by (auto simp: feishuMessageHandler_def markMessageSeen_def Let_def)
  from dropped passed show ?thesis by blast
qed

lemma dedupeCheck_fresh:
  assumes "key \<notin> fst ` set (cacheEntries c)" "\<forall>e\<in>set (cacheEntries c). now < snd e" "0 < ttlMs c"
  shows "fst (dedupeCheck c key now) = False"
    and "cacheEntries (snd (dedupeCheck c key now)) =
           drop (Suc (length (cacheEntries c)) - maxSize c) (cacheEntries c @ [(key, now + ttlMs c)])"
proof -
  have "map_of (cacheEntries c) key = None"
    using assms(1) by (simp add: map_of_eq_None_iff)
  then show "fst (dedupeCheck c key now) = False"
    by (simp add: dedupeCheck_def Let_def)
  have "filter (\<lambda>e. now < snd e) (cacheEntries c) = cacheEntries c"
    using assms(2) by (simp add: filter_id_conv)
  then show "cacheEntries (snd (dedupeCheck c key now)) =
           drop (Suc (length (cacheEntries c)) - maxSize c) (cacheEntries c @ [(key, now + ttlMs c)])"
    using assms(3) filter_fresh [OF assms(1)]
    by (simp add: dedupeCheck_def Let_def)
qed

lemma deliverAll_snoc: "deliverAll (ds @ [(now, event, opts)]) st = feishuMessageHandler now event opts (deliverAll ds st)"
  by (induction ds st rule: deliverAll.induct) simp_all

lemma burstEvent_seen:
  "seenMessages (feishuMessageHandler now (burstEvent j) opts st) =
     snd (dedupeCheck (seenMessages st) (burstKey j) now)"
  by (simp add: handler_seen burstEvent_def groupEvent_def markMessageSeen_def burstKey_def ascii_def)

lemma groupEvent_marked:
  "markMessageSeen c (chat_id (the (message groupEvent))) (message_id (the (message groupEvent))) now =
     dedupeCheck c (ascii ''oc_1:om_2'') now"
  by (simp add: groupEvent_def markMessageSeen_def ascii_def)

lemma burstKey_inj: "burstKey i = burstKey j \<longleftrightarrow> i = j"
proof
  assume "burstKey i = burstKey j"
  then have "length (burstKey i) = length (burstKey j)" by simp
  then show "i = j" by (simp add: burstKey_def)
qed simp

lemma burstKey_first: "0 < j \<Longrightarrow> burstKey j \<noteq> ascii ''oc_1:om_2''"
  by (cases j) (simp_all add: burstKey_def ascii_def)

lemma burstEntries_Suc: "burstEntries (Suc n) = burstEntries n @ [(burstKey (Suc n), int (Suc n) + 60000)]"
  by (simp add: burstEntries_def)

lemma burstEntries_keys: "k \<in> fst ` set (burstEntries n) \<longleftrightarrow> (\<exists>j. 1 \<le> j \<and> j \<le> n \<and> k = burstKey j)"
  by (auto simp: burstEntries_def image_iff)

lemma burstEntries_live: "e \<in> set (burstEntries n) \<Longrightarrow> now < 60000 \<Longrightarrow> now < snd e"
  by (auto simp: burstEntries_def)

lemma burstEntries_length: "length (burstEntries n) = n"
  by (simp add: burstEntries_def)

lemma afterFirst_cache:
  "cacheEntries (seenMessages afterFirst) = [(ascii ''oc_1:om_2'', 60000)]"
  "ttlMs (seenMessages afterFirst) = 60000" "maxSize (seenMessages afterFirst) = 500"
  by (simp_all add: afterFirst_def handler_seen groupEvent_def markMessageSeen_def
        initialHandlerState_def createDedupeCache_def dedupeCheck_def Let_def ascii_def)

lemma burst_params:
  "ttlMs (seenMessages (deliverAll (burst n) afterFirst)) = 60000"
  "maxSize (seenMessages (deliverAll (burst n) afterFirst)) = 500"
  by (simp_all add: deliverAll_params afterFirst_cache)

lemma burst_cache:
  "n < 500 \<Longrightarrow>
     cacheEntries (seenMessages (deliverAll (burst n) afterFirst)) =
       (ascii ''oc_1:om_2'', 60000) # burstEntries n"
proof (induction n)
  case 0
  then show ?case by (simp add: afterFirst_cache burstEntries_def)
next
  case (Suc n)
  define c where "c = seenMessages (deliverAll (burst n) afterFirst)"
  have ce: "cacheEntries c = (ascii ''oc_1:om_2'', 60000) # burstEntries n"
    using Suc by (simp add: c_def)
  have p: "ttlMs c = 60000" "maxSize c = 500"
    by (simp_all add: c_def burst_params)
  have fresh: "burstKey (Suc n) \<notin> fst ` set (cacheEntries c)"
    using burstKey_first [of "Suc n"] by (auto simp: ce burstEntries_keys burstKey_inj)
  have live: "\<forall>e\<in>set (cacheEntries c). int (Suc n) < snd e"
    using Suc.prems burstEntries_live [of _ n "int (Suc n)"] by (auto simp: ce)
  have "cacheEntries (snd (dedupeCheck c (burstKey (Suc n)) (int (Suc n)))) =
          drop (Suc (length (cacheEntries c)) - maxSize c)
            (cacheEntries c @ [(burstKey (Suc n), int (Suc n) + ttlMs c)])"
    by (rule dedupeCheck_fresh(2) [OF fresh live]) (simp add: p)
  also have "\<dots> = (ascii ''oc_1:om_2'', 60000) # burstEntries (Suc n)"
    using Suc.prems by (simp add: ce p burstEntries_length burstEntries_Suc)
  finally show ?case
    by (simp add: deliverAll_snoc burstEvent_seen c_def)
qed

lemma burst_cache_full:
  "cacheEntries (seenMessages (deliverAll (burst 500) afterFirst)) = burstEntries 500"
proof -
  define c where "c = seenMessages (deliverAll (burst 499) afterFirst)"
  have ce: "cacheEntries c = (ascii ''oc_1:om_2'', 60000) # burstEntries 499"
    using burst_cache [of 499] by (simp add: c_def)
  have p: "ttlMs c = 60000" "maxSize c = 500"
    by (simp_all add: c_def burst_params)
  have fresh: "burstKey 500 \<notin> fst ` set (cacheEntries c)"
    using burstKey_first [of 500] by (auto simp: ce burstEntries_keys burstKey_inj)
  have live: "\<forall>e\<in>set (cacheEntries c). 500 < snd e"
    using burstEntries_live [of _ 499 500] by (auto simp: ce)
  have "cacheEntries (snd (dedupeCheck c (burstKey 500) 500)) =
          drop (Suc (length (cacheEntries c)) - maxSize c)
            (cacheEntries c @ [(burstKey 500, 500 + ttlMs c)])"
    by (rule dedupeCheck_fresh(2) [OF fresh live]) (simp add: p)
  also have "\<dots> = burstEntries 499 @ [(burstKey 500, 60500)]"
    by (simp add: ce p burstEntries_length)
  also have "\<dots> = burstEntries 500"
    using burstEntries_Suc [of 499] by simp
  finally have "cacheEntries (snd (dedupeCheck c (burstKey 500) 500)) = burstEntries 500" .
  moreover have "burst 500 = burst 499 @ [(500, burstEvent 500, notMentioned)]"
    using burst.simps(2) [of 499] by simp
  ultimately show ?thesis
    by (simp add: deliverAll_snoc burstEvent_seen c_def)
qed

theorem redelivery_after_burst_counterexample:
  "length (burst 500) = 500 \<and>
   (501::int) < 0 + ttlMs (seenMessages initialHandlerState) \<and>
   enqueued (feishuMessageHandler 501 groupEvent notMentioned
               (deliverAll (burst 500)
                  (feishuMessageHandler 0 groupEvent notMentioned initialHandlerState))) =
     enqueued (deliverAll (burst 500)
                 (feishuMessageHandler 0 groupEvent notMentioned initialHandlerState))
       @ [(groupEvent, notMentioned)]"
proof -
  have len: "length (burst n) = n" for n
    by (induction n) simp_all
  define c where "c = seenMessages (deliverAll (burst 500) afterFirst)"
  have fresh: "ascii ''oc_1:om_2'' \<notin> fst ` set (cacheEntries c)"
  proof
    assume "ascii ''oc_1:om_2'' \<in> fst ` set (cacheEntries c)"
    then obtain j where "1 \<le> j" "ascii ''oc_1:om_2'' = burstKey j"
      unfolding c_def burst_cache_full burstEntries_keys by blast
    with burstKey_first [of j] show False by simp
  qed
  have live: "\<forall>e\<in>set (cacheEntries c). 501 < snd e"
    using burstEntries_live [of _ 500 501] by (auto simp: c_def burst_cache_full)
  have "fst (dedupeCheck c (ascii ''oc_1:om_2'') 501) = False"
    by (rule dedupeCheck_fresh(1) [OF fresh live]) (simp add: c_def burst_params)
  then have "enqueued (feishuMessageHandler 501 groupEvent notMentioned (deliverAll (burst 500) afterFirst)) =
               enqueued (deliverAll (burst 500) afterFirst) @ [(groupEvent, notMentioned)]"
    using groupEvent_marked [of c 501]
    by (simp add: feishuMessageHandler_def Let_def c_def groupEvent_def)
  then show ?thesis
    by (simp add: len afterFirst_def initialHandlerState_def createDedupeCache_def)
qed

section \<open>The properties on examples\<close>

theorem pairing_reply_once_witness:
  "i_isDirectMessage (projr (identifyTurn exampleEnv exampleContext dmEvent)) \<and>
   dmEnabled exampleContext \<and> dmPolicy exampleContext = DmPairing \<and>
   fst (prepareFeishuMessage exampleEnv exampleContext (ascii ''default'') dmEvent notMentioned emptyWorld)
     = Inl DmPairingPending \<and>
   length (sentMessages (snd (prepareFeishuMessage exampleEnv exampleContext (ascii ''default'')
                                dmEvent notMentioned emptyWorld))) = 1 \<and>
   sentMessages (snd (prepareFeishuMessage exampleEnv exampleContext (ascii ''default'') dmEvent notMentioned
                        (snd (prepareFeishuMessage exampleEnv exampleContext (ascii ''default'')
                                dmEvent notMentioned emptyWorld)))) =
     sentMessages (snd (prepareFeishuMessage exampleEnv exampleContext (ascii ''default'')
                          dmEvent notMentioned emptyWorld))"
proof -
  define i where "i = projr (identifyTurn exampleEnv exampleContext dmEvent)"
  have "\<not> isl (identifyTurn exampleEnv exampleContext dmEvent)"
    by code_simp
  then have h1: "identifyTurn exampleEnv exampleContext dmEvent = Inr i"
    by (simp add: i_def)
  have h2: "i_isDirectMessage i"
    unfolding i_def by code_simp
  have h3: "dmEnabled exampleContext" "dmPolicy exampleContext = DmPairing"
    by code_simp+
  have h4: "\<not> allowed (resolveFeishuAllowListMatch exampleEnv (allowFrom exampleContext) (i_senderId i) None)"
    unfolding i_def by code_simp
  have created: "snd (fst (upsertChannelPairingRequest exampleEnv (pairingRequests emptyWorld)
                             (ascii ''feishu'') (i_senderId i)))"
    unfolding i_def by code_simp
  from pairing_reply_once [OF h1 h2 h1 h2 refl h3 h4, where account = "ascii ''default''"
         and opts = notMentioned and w = emptyWorld and opts' = notMentioned]
       created h2 h3
  show ?thesis
    unfolding Let_def i_def [symmetric] by (simp add: emptyWorld_def)
qed

theorem command_authorization_witness:
  "identifyTurn exampleEnv openGroupContext commandEvent =
     Inr (projr (identifyTurn exampleEnv openGroupContext commandEvent)) \<and>
   i_isGroup (projr (identifyTurn exampleEnv openGroupContext commandEvent)) \<and>
   shouldHandleTextCommands exampleEnv \<and>
   hasControlCommand exampleEnv
     (extractMessageText (i_message (projr (identifyTurn exampleEnv openGroupContext commandEvent)))) \<and>
   allowFrom openGroupContext = [] \<and>
   isl (fst (prepareFeishuMessage exampleEnv openGroupContext (ascii ''default'') commandEvent
               notMentioned emptyWorld))"
proof -
  define i where "i = projr (identifyTurn exampleEnv openGroupContext commandEvent)"
  have "\<not> isl (identifyTurn exampleEnv openGroupContext commandEvent)"
    by code_simp
  then have h1: "identifyTurn exampleEnv openGroupContext commandEvent = Inr i"
    by (simp add: i_def)
  have h2: "i_isGroup i" "shouldHandleTextCommands exampleEnv"
    "hasControlCommand exampleEnv (extractMessageText (i_message i))"
    unfolding i_def by code_simp+
  have h3: "allowFrom openGroupContext = []" "groupUsers (i_groupConfig i) = []"
    unfolding i_def by code_simp+
  from command_authorization
         [where E = exampleEnv and ctx = openGroupContext and i = i
            and senderName = "resolveSenderName exampleEnv i"
            and rawBody = "extractMessageText (i_message i)" and event = commandEvent
            and account = "ascii ''default''" and opts = notMentioned and w = emptyWorld]
       h1 h2 h3
  show ?thesis
    unfolding i_def [symmetric] by simp
qed

theorem mention_skip_recorded_witness:
  "i_isGroup (projr (identifyTurn exampleEnv openGroupContext groupEvent)) \<and>
   0 < historyLimit openGroupContext \<and>
   fst (prepareFeishuMessage exampleEnv openGroupContext (ascii ''default'') groupEvent notMentioned emptyWorld)
     = Inl NoMention \<and>
   (\<exists>older. map_of (chatHistories (snd (prepareFeishuMessage exampleEnv openGroupContext (ascii ''default'')
                                          groupEvent notMentioned emptyWorld))) (ascii ''oc_1'') =
      Some (older @ [\<lparr>entrySender = ascii ''ou_user'', entryBody = ascii ''hello'',
                       entryTimestamp = Some 13, entryMessageId = Some (ascii ''om_2'')\<rparr>]))"
proof -
  define i where "i = projr (identifyTurn exampleEnv openGroupContext groupEvent)"
  define g where "g = projr (gateTurn exampleEnv openGroupContext (ascii ''default'') i notMentioned)"
  have "\<not> isl (identifyTurn exampleEnv openGroupContext groupEvent)"
    by code_simp
  then have h1: "identifyTurn exampleEnv openGroupContext groupEvent = Inr i"
    by (simp add: i_def)
  have "\<not> isl (gateTurn exampleEnv openGroupContext (ascii ''default'') i notMentioned)"
    unfolding i_def by code_simp
  then have h2: "gateTurn exampleEnv openGroupContext (ascii ''default'') i notMentioned = Inr g"
    by (simp add: g_def)
  have h3: "i_isGroup i" "g_shouldRequireMention g" "shouldSkip (g_mentionGate g)"
    "0 < historyLimit openGroupContext"
    unfolding g_def i_def by code_simp+
  have v: "g_historyKey g = ascii ''oc_1''"
    "resolveSenderName exampleEnv i = ascii ''ou_user''"
    "extractMessageText (i_message i) = ascii ''hello''"
    "messageTimestamp exampleEnv (i_message i) = Some 13"
    "message_id (i_message i) = Some (ascii ''om_2'')"
    unfolding g_def i_def by code_simp+
  from mention_skip_recorded [OF h1 h2, where w = emptyWorld] h3 v
  show ?thesis
    unfolding i_def [symmetric] by auto
qed

theorem mention_skip_without_history_counterexample:
  "historyLimit noHistoryContext = 0 \<and>
   fst (prepareFeishuMessage exampleEnv noHistoryContext (ascii ''default'') groupEvent notMentioned emptyWorld)
     = Inl NoMention \<and>
   chatHistories (snd (prepareFeishuMessage exampleEnv noHistoryContext (ascii ''default'')
                         groupEvent notMentioned emptyWorld)) = []"
  by code_simp

theorem redelivery_dropped_witness:
  "length (burst 3) < maxSize (seenMessages initialHandlerState) \<and>
   (10::int) < 0 + ttlMs (seenMessages initialHandlerState) \<and>
   enqueued (feishuMessageHandler 10 groupEvent mentioned
               (deliverAll (burst 3)
                  (feishuMessageHandler 0 groupEvent notMentioned initialHandlerState))) =
     enqueued (deliverAll (burst 3)
                 (feishuMessageHandler 0 groupEvent notMentioned initialHandlerState)) \<and>
   \<not> truthy (message_id (the (message unidentifiedEvent))) \<and>
   feishuMessageHandler 0 unidentifiedEvent notMentioned initialHandlerState =
     initialHandlerState\<lparr>enqueued := [(unidentifiedEvent, notMentioned)]\<rparr>"
proof -
  have m: "message groupEvent = Some (the (message groupEvent))"
    "chat_id (the (message groupEvent)) = Some (ascii ''oc_1'')"
    "message_id (the (message groupEvent)) = Some (ascii ''om_2'')"
    "ascii ''oc_1'' \<noteq> []" "ascii ''om_2'' \<noteq> []"
    by (simp_all add: groupEvent_def ascii_def)
  have c: "0 < ttlMs (seenMessages initialHandlerState)"
    "length (burst 3) < maxSize (seenMessages initialHandlerState)"
    "\<forall>d\<in>set (burst 3). 0 \<le> fst d \<and> fst d < 0 + ttlMs (seenMessages initialHandlerState)"
    "(10::int) < 0 + ttlMs (seenMessages initialHandlerState)"
    by (simp_all add: initialHandlerState_def createDedupeCache_def numeral_3_eq_3)
  have u: "message unidentifiedEvent = Some (the (message unidentifiedEvent))"
    "\<not> truthy (message_id (the (message unidentifiedEvent)))"
    by (simp_all add: unidentifiedEvent_def groupEvent_def)
  have e: "enqueued initialHandlerState = []"
    by (simp add: initialHandlerState_def)
  from redelivery_dropped
         [where event = groupEvent and msg = "the (message groupEvent)" and chat = "ascii ''oc_1''"
            and mid = "ascii ''om_2''" and event' = groupEvent and msg' = "the (message groupEvent)"
            and st = initialHandlerState and between = "burst 3" and ?t1.0 = 0 and ?t2.0 = 10
            and opts = notMentioned and opts' = mentioned]
       redelivery_dropped
         [where event = unidentifiedEvent and msg = "the (message unidentifiedEvent)"
            and st = initialHandlerState and ?t1.0 = 0 and opts = notMentioned]
       m c u e
  show ?thesis by simp
qed

text \<open>
  A post of one paragraph, alone in its bucket and after a text message: the combined
  text is \<open>world\<close>, respectively \<open>hello\<close> and \<open>world\<close> joined by a newline, and
  nothing is dispatched. The bucket of two text messages is dispatched with that body,
  and the post itself, prepared as it arrived, yields a turn with the body \<open>world\<close>.
\<close>

theorem flush_drops_nontext_bucket_witness:
  "message (fst (last [(postEvent, mentioned)])) = Some (the (message postEvent)) \<and>
   message_type (the (message postEvent)) = ascii ''post'' \<and>
   shouldDebounce exampleEnv (postEvent, mentioned) \<and>
   combineText [(postEvent, mentioned)] = ascii ''world'' \<and>
   message (syntheticEvent [(postEvent, mentioned)]) =
     Some ((the (message postEvent))\<lparr>content := stringifyText (ascii ''world'')\<rparr>) \<and>
   dispatched (onFlush exampleEnv exampleContext (ascii ''default'') [(postEvent, mentioned)] emptyWorld) = [] \<and>
   combineText [(groupEvent, notMentioned), (postEvent, mentioned)] = ascii ''hello\<newline>world'' \<and>
   dispatched (onFlush exampleEnv exampleContext (ascii ''default'')
                 [(groupEvent, notMentioned), (postEvent, mentioned)] emptyWorld) = [] \<and>
   map (\<lambda>turn. RawBody (p_ctxPayload turn))
     (dispatched (onFlush exampleEnv exampleContext (ascii ''default'')
                    [(groupEvent, notMentioned), (secondGroupEvent, mentioned)] emptyWorld)) =
     [ascii ''hello\<newline>world''] \<and>
   map_sum id (\<lambda>turn. RawBody (p_ctxPayload turn))
     (fst (prepareFeishuMessage exampleEnv exampleContext (ascii ''default'') postEvent mentioned emptyWorld)) =
     Inr (ascii ''world'')"
proof -
  have m: "message (fst (last [(postEvent, mentioned)])) = Some (the (message postEvent))"
    "message (fst (last [(groupEvent, notMentioned), (postEvent, mentioned)])) = Some (the (message postEvent))"
    by (simp_all add: postEvent_def groupEvent_def)
  have t: "message_type (the (message postEvent)) = ascii ''post''"
    by code_simp
  have nt: "message_type (the (message postEvent)) \<noteq> ascii ''text''"
    by code_simp
  have c: "combineText [(postEvent, mentioned)] = ascii ''world''"
    "combineText [(groupEvent, notMentioned), (postEvent, mentioned)] = ascii ''hello\<newline>world''"
    by code_simp+
  have d: "shouldDebounce exampleEnv (postEvent, mentioned)"
    by code_simp
  have e: "dispatched emptyWorld = []"
    by (simp add: emptyWorld_def)
  have joined: "map (\<lambda>turn. RawBody (p_ctxPayload turn))
     (dispatched (onFlush exampleEnv exampleContext (ascii ''default'')
                    [(groupEvent, notMentioned), (secondGroupEvent, mentioned)] emptyWorld)) =
     [ascii ''hello\<newline>world'']"
    by code_simp
  have direct: "map_sum id (\<lambda>turn. RawBody (p_ctxPayload turn))
     (fst (prepareFeishuMessage exampleEnv exampleContext (ascii ''default'') postEvent mentioned emptyWorld)) =
     Inr (ascii ''world'')"
    by code_simp
  note a = flush_drops_nontext_bucket [OF _ m(1) nt, where E = exampleEnv and ctx = exampleContext
             and account = "ascii ''default''" and w = emptyWorld, unfolded c]
  note b = flush_drops_nontext_bucket [OF _ m(2) nt, where E = exampleEnv and ctx = exampleContext
             and account = "ascii ''default''" and w = emptyWorld, unfolded c]
  have a1: "dispatched (onFlush exampleEnv exampleContext (ascii ''default'') [(postEvent, mentioned)] emptyWorld) = []"
    using a e by simp
  have a2: "message (syntheticEvent [(postEvent, mentioned)]) =
     Some ((the (message postEvent))\<lparr>content := stringifyText (ascii ''world'')\<rparr>)"
    using a by simp
  have b1: "dispatched (onFlush exampleEnv exampleContext (ascii ''default'')
                 [(groupEvent, notMentioned), (postEvent, mentioned)] emptyWorld) = []"
    using b e by simp
  from m(1) t d c a1 a2 b1 joined direct show ?thesis by blast
qed

end
